theory Spec2Isabelle
  imports Complex_Main "HOL-Library.Word" "HOL-Library.Sublist" "HOL-Library.AList"
begin

unbundle bit_operations_syntax

chapter \<open>The gravitational-memory engine of ai-books-mcp-server\<close>

text \<open>
  A shallow embedding of \<^verbatim>\<open>src/services/gravitational.ts\<close> and
  \<^verbatim>\<open>src/services/storage.ts\<close>.

  Conventions of the embedding.
  \<^item> A JavaScript string is the list of its UTF-16 code units (\<open>16 word list\<close>);
    \<open>length\<close> is the property \<^verbatim>\<open>.length\<close>.
  \<^item> JavaScript numbers that hold integers (loop counters, lengths, \<^verbatim>\<open>n_max\<close>,
    \<^verbatim>\<open>topK\<close>) are \<open>int\<close>; the quotients the code computes (compression ratios,
    similarity scores) are \<open>real\<close>, the exact value that the IEEE double of the
    program rounds. Where the order of the results depends on the rounded number, in
    the ranking of \<open>queryLibrary\<close>, the score is the rounded one
    (\<open>calculateSimilarity_binary64\<close>). \<^verbatim>\<open>NaN\<close> in an orbital state is \<open>None\<close>.
  \<^item> Functions of the platform that are not part of the repository are parameters
    of the functions that call them: \<open>sha256\<close> is
    \<^verbatim>\<open>crypto.createHash('sha256').update(s).digest()\<close> (the 256-bit digest of the
    UTF-8 encoding of a string), \<open>toLowerCase\<close> is \<^verbatim>\<open>String.prototype.toLowerCase\<close>,
    \<open>round64\<close> is the rounding of binary64 arithmetic.
  \<^item> The two effects of the module, \<^verbatim>\<open>crypto.randomUUID()\<close> and
    \<^verbatim>\<open>new Date().toISOString()\<close>, are explicit inputs: the value that the call
    returns is an argument (\<open>uuid\<close>, \<open>now\<close>), or the \<open>i\<close>-th value of a sequence
    (\<open>uuids\<close>, \<open>clock\<close>) where a function makes several calls.
\<close>

section \<open>JavaScript strings, arrays and buffers\<close>

type_synonym jsstring = "16 word list"

type_synonym byte = "8 word"

text \<open>An ASCII literal as a JavaScript string.\<close>

definition js :: "string \<Rightarrow> jsstring" where
  "js s = map of_char s"

text \<open>
  The class \<^verbatim>\<open>\s\<close> of ECMAScript regular expressions: WhiteSpace and LineTerminator
  code points.
\<close>

definition is_space :: "16 word \<Rightarrow> bool" where
  "is_space c \<longleftrightarrow>
     c = 0x09 \<or> c = 0x0A \<or> c = 0x0B \<or> c = 0x0C \<or> c = 0x0D \<or> c = 0x20 \<or> c = 0xA0 \<or>
     c = 0x1680 \<or> (0x2000 \<le> c \<and> c \<le> 0x200A) \<or> c = 0x2028 \<or> c = 0x2029 \<or>
     c = 0x202F \<or> c = 0x205F \<or> c = 0x3000 \<or> c = 0xFEFF"

text \<open>The class \<^verbatim>\<open>\w\<close>, that is \<^verbatim>\<open>[A-Za-z0-9_]\<close>; \<^verbatim>\<open>\W\<close> is its complement.\<close>

definition is_word_char :: "16 word \<Rightarrow> bool" where
  "is_word_char c \<longleftrightarrow>
     (0x30 \<le> c \<and> c \<le> 0x39) \<or> (0x41 \<le> c \<and> c \<le> 0x5A) \<or> c = 0x5F \<or> (0x61 \<le> c \<and> c \<le> 0x7A)"

text \<open>
  \<^verbatim>\<open>s.split(/X+/)\<close> for a character class \<open>X\<close> given as the predicate \<open>sep\<close>:
  the scan of \<^verbatim>\<open>String.prototype.split\<close> collects characters in \<open>acc\<close> until a
  separator, where the greedy \<^verbatim>\<open>X+\<close> takes the whole run. A separator run at the
  start or at the end of the string leaves an empty string there, and the empty string
  splits into one empty string.
\<close>

function split_runs :: "('a \<Rightarrow> bool) \<Rightarrow> 'a list \<Rightarrow> 'a list \<Rightarrow> 'a list list" where
  "split_runs sep acc [] = [acc]"
| "split_runs sep acc (c # cs) =
     (if sep c then acc # split_runs sep [] (dropWhile sep cs)
      else split_runs sep (acc @ [c]) cs)"
  by pat_completeness auto
termination
  by (relation "measure (\<lambda>(sep, acc, s). length s)")
     (auto simp: le_imp_less_Suc length_dropWhile_le)

text \<open>\<^verbatim>\<open>s.split(/\s+/)\<close> and \<^verbatim>\<open>s.split(/\W+/)\<close>.\<close>

definition split_ws :: "jsstring \<Rightarrow> jsstring list" where
  "split_ws text = split_runs is_space [] text"

definition split_nonword :: "jsstring \<Rightarrow> jsstring list" where
  "split_nonword text = split_runs (\<lambda>c. \<not> is_word_char c) [] text"

text \<open>\<^verbatim>\<open>xs.join(s)\<close> for a one-character separator.\<close>

fun js_join :: "'a \<Rightarrow> 'a list list \<Rightarrow> 'a list" where
  "js_join s [] = []"
| "js_join s [x] = x"
| "js_join s (x # y # ys) = x @ s # js_join s (y # ys)"

text \<open>
  \<^verbatim>\<open>xs.slice(start, stop)\<close> of arrays and buffers, for integer arguments: a negative
  index counts from the end, and both are clamped to the array.
\<close>

definition js_slice :: "'a list \<Rightarrow> int \<Rightarrow> int \<Rightarrow> 'a list" where
  "js_slice xs start stop =
     (let len = int (length xs);
          k = (if start < 0 then max (len + start) 0 else min start len);
          fin = (if stop < 0 then max (len + stop) 0 else min stop len)
      in take (nat (fin - k)) (drop (nat k) xs))"

text \<open>
  The remainder \<^verbatim>\<open>a % b\<close> on integers, which takes the sign of the dividend. For
  \<open>b = 0\<close> JavaScript gives \<^verbatim>\<open>NaN\<close>; the callers below test for it before.
\<close>

definition js_rem :: "int \<Rightarrow> int \<Rightarrow> int" where
  "js_rem a b = sgn a * (\<bar>a\<bar> mod \<bar>b\<bar>)"

text \<open>\<^verbatim>\<open>s.includes(t)\<close>: \<open>t\<close> occurs in \<open>s\<close> as a contiguous substring.\<close>

fun starts_with :: "'a list \<Rightarrow> 'a list \<Rightarrow> bool" where
  "starts_with s [] = True"
| "starts_with [] (t # ts) = False"
| "starts_with (c # cs) (t # ts) = (c = t \<and> starts_with cs ts)"

fun js_includes :: "'a list \<Rightarrow> 'a list \<Rightarrow> bool" where
  "js_includes [] t = (t = [])"
| "js_includes (c # cs) t = (starts_with (c # cs) t \<or> js_includes cs t)"

text \<open>
  \<^verbatim>\<open>Buffer.byteLength(s, 'utf8')\<close>: one byte for a code unit below \<open>0x80\<close>, two below
  \<open>0x800\<close>, four for a surrogate pair, three for anything else (a lone surrogate is
  encoded as U+FFFD).
\<close>

fun utf8_byteLength :: "jsstring \<Rightarrow> nat" where
  "utf8_byteLength [] = 0"
| "utf8_byteLength [c] = (if c < 0x80 then 1 else if c < 0x800 then 2 else 3)"
| "utf8_byteLength (c # d # cs) =
     (if c < 0x80 then 1 + utf8_byteLength (d # cs)
      else if c < 0x800 then 2 + utf8_byteLength (d # cs)
      else if 0xD800 \<le> c \<and> c \<le> 0xDBFF \<and> 0xDC00 \<le> d \<and> d \<le> 0xDFFF
        then 4 + utf8_byteLength cs
      else 3 + utf8_byteLength (d # cs))"

text \<open>
  A SHA-256 digest is a \<open>256 word\<close>. Its 32 bytes, most significant first, and
  \<^verbatim>\<open>digest('hex')\<close>, two lower-case hexadecimal digits for each byte.
\<close>

definition digest_bytes :: "256 word \<Rightarrow> byte list" where
  "digest_bytes d = map (\<lambda>i. ucast (drop_bit (8 * (31 - i)) d)) [0..<32]"

definition hex_digit :: "nat \<Rightarrow> 16 word" where
  "hex_digit d = (if d < 10 then of_nat (48 + d) else of_nat (87 + d))"

definition hex_of_byte :: "byte \<Rightarrow> jsstring" where
  "hex_of_byte b = [hex_digit (unat b div 16), hex_digit (unat b mod 16)]"

definition digest_hex :: "256 word \<Rightarrow> jsstring" where
  "digest_hex d = concat (map hex_of_byte (digest_bytes d))"

text \<open>
  \<^verbatim>\<open>Buffer.from(s, 'hex')\<close>: one byte for each pair of hexadecimal digits (either
  case); decoding stops at the first pair that is not one, and a last single character
  is dropped. The decoder of Node reads the low byte of each code unit.
\<close>

definition hex_val :: "16 word \<Rightarrow> nat option" where
  "hex_val c =
     (let b = c AND 0xFF in
      if 0x30 \<le> b \<and> b \<le> 0x39 then Some (unat b - 48)
      else if 0x61 \<le> b \<and> b \<le> 0x66 then Some (unat b - 87)
      else if 0x41 \<le> b \<and> b \<le> 0x46 then Some (unat b - 55)
      else None)"

fun buffer_from_hex :: "jsstring \<Rightarrow> byte list" where
  "buffer_from_hex (a # b # rest) =
     (case (hex_val a, hex_val b) of
        (Some x, Some y) \<Rightarrow> of_nat (16 * x + y) # buffer_from_hex rest
      | _ \<Rightarrow> [])"
| "buffer_from_hex _ = []"

text \<open>
  \<^verbatim>\<open>xs.sort(cmp)\<close>. ECMAScript requires the sort to be stable, and with a consistent
  comparator the result is ordered by it; the model is the stable insertion sort, where
  an element goes before the first later element that the comparator does not put
  before it.
\<close>

fun insert_by :: "('a \<Rightarrow> 'a \<Rightarrow> real) \<Rightarrow> 'a \<Rightarrow> 'a list \<Rightarrow> 'a list" where
  "insert_by cmp x [] = [x]"
| "insert_by cmp x (y # ys) =
     (if cmp x y \<le> 0 then x # y # ys else y # insert_by cmp x ys)"

definition js_sort :: "('a \<Rightarrow> 'a \<Rightarrow> real) \<Rightarrow> 'a list \<Rightarrow> 'a list" where
  "js_sort cmp xs = foldr (insert_by cmp) xs []"

section \<open>The descriptor encoder\<close>

text \<open>
  The body of the loop of \<^verbatim>\<open>calculateGravitationalStates\<close> at level \<open>n\<close>. With no
  relevant bytes, \<^verbatim>\<open>(n - 1) % 0\<close> is \<^verbatim>\<open>NaN\<close>, the read is \<^verbatim>\<open>undefined\<close> and the
  occupation \<^verbatim>\<open>NaN\<close>; so is the read at a negative index (the loop starts at
  level 1 and makes none).
\<close>

definition occupation :: "byte list \<Rightarrow> int \<Rightarrow> int option" where
  "occupation relevantBytes n =
     (let orbitalCapacity = 2 * n * n in
      if relevantBytes = [] then None
      else
        let byteIndex = js_rem (n - 1) (int (length relevantBytes))
        in if byteIndex < 0 then None
           else Some (js_rem (uint (relevantBytes ! nat byteIndex)) (orbitalCapacity + 1)))"

function states_loop :: "byte list \<Rightarrow> int \<Rightarrow> int \<Rightarrow> int option list \<Rightarrow> int option list" where
  "states_loop relevantBytes n_max n states =
     (if n \<le> n_max
      then states_loop relevantBytes n_max (n + 1) (states @ [occupation relevantBytes n])
      else states)"
  by pat_completeness auto
termination
  by (relation "measure (\<lambda>(relevantBytes, n_max, n, states). nat (n_max + 1 - n))") auto

declare states_loop.simps [simp del]

definition calculateGravitationalStates :: "jsstring \<Rightarrow> int \<Rightarrow> int option list" where
  "calculateGravitationalStates hash n_max =
     (let hashBytes = buffer_from_hex hash;
          relevantBytes = js_slice hashBytes 0 16
      in states_loop relevantBytes n_max 1 [])"

section \<open>The chunker\<close>

text \<open>
  The loop of \<^verbatim>\<open>chunkText\<close>. With a step that is not positive the loop of the source
  never ends; the model is a partial function, and \<open>None\<close> is a run that does not
  return.
\<close>

partial_function (option) chunk_loop ::
  "jsstring list \<Rightarrow> int \<Rightarrow> int \<Rightarrow> jsstring list \<Rightarrow> jsstring list option" where
  "chunk_loop words targetWordsPerChunk i chunks =
     (if i < int (length words)
      then chunk_loop words targetWordsPerChunk (i + targetWordsPerChunk)
             (chunks @ [js_join 0x20 (js_slice words i (i + targetWordsPerChunk))])
      else Some chunks)"

definition chunkText :: "jsstring \<Rightarrow> int \<Rightarrow> jsstring list option" where
  "chunkText text targetWordsPerChunk = chunk_loop (split_ws text) targetWordsPerChunk 0 []"

section \<open>The data model\<close>

record GravitationalBit =
  hash :: jsstring
  states :: "int option list"
  n_max :: int
  compression_ratio :: real

record ChunkMetadata =
  word_count :: nat
  character_count :: nat
  created_at :: jsstring

text \<open>
  From here on a parameter that has the name of a field is written with a prime
  (\<open>content'\<close>, \<open>n_max'\<close>, \<open>name'\<close>). \<open>hash\<close> is a field of both interfaces;
  below, the plain name is the field of \<open>CompressedChunk\<close>, and
  \<open>GravitationalBit.hash\<close> that of the descriptor. Likewise
  \<open>created_at\<close> is the field of \<open>KnowledgeLibrary\<close>, and
  \<open>ChunkMetadata.created_at\<close> that of a chunk's metadata.
\<close>

record CompressedChunk =
  id :: jsstring
  content :: jsstring
  hash :: jsstring
  gravitational_bit :: GravitationalBit
  metadata :: ChunkMetadata

record KnowledgeLibrary =
  name :: jsstring
  chunks :: "CompressedChunk list"
  total_compression_ratio :: real
  created_at :: jsstring
  updated_at :: jsstring

section \<open>Compressing a chunk\<close>

text \<open>
  \<^verbatim>\<open>compressChunk\<close>. The local \<^verbatim>\<open>totalStates\<close> of the source is computed and never
  read; it is left out.
\<close>

definition compressChunk ::
  "(jsstring \<Rightarrow> 256 word) \<Rightarrow> jsstring \<Rightarrow> jsstring \<Rightarrow> jsstring \<Rightarrow> int \<Rightarrow> CompressedChunk" where
  "compressChunk sha256 uuid now content' n_max' =
     (let hash = digest_hex (sha256 content');
          states = calculateGravitationalStates hash n_max';
          originalSize = utf8_byteLength content';
          compressedSize = 32 + length states * 4;
          compressionRatio = real originalSize / real compressedSize;
          gravitationalBit = \<lparr> GravitationalBit.hash = hash, states = states, n_max = n_max',
                               compression_ratio = compressionRatio \<rparr>
      in \<lparr> id = uuid, content = content', hash = hash,
           gravitational_bit = gravitationalBit,
           metadata = \<lparr> word_count = length (split_ws content'),
                        character_count = length content',
                        ChunkMetadata.created_at = now \<rparr> \<rparr>)"

section \<open>The similarity scorer\<close>

text \<open>The loop over the positions that both digests have, counting equal characters.\<close>

fun hash_matches :: "jsstring \<Rightarrow> jsstring \<Rightarrow> nat" where
  "hash_matches (a # as) (b # bs) = (if a = b then 1 else 0) + hash_matches as bs"
| "hash_matches _ _ = 0"

definition calculateSimilarity ::
  "(jsstring \<Rightarrow> 256 word) \<Rightarrow> (jsstring \<Rightarrow> jsstring) \<Rightarrow> jsstring \<Rightarrow> CompressedChunk \<Rightarrow> real" where
  "calculateSimilarity sha256 toLowerCase query chunk =
     (let queryHash = digest_hex (sha256 (toLowerCase query));
          chunkHash = hash chunk;
          hashSimilarity = real (hash_matches queryHash chunkHash) / real (length queryHash);
          queryWords = filter (\<lambda>w. length w > 3) (split_nonword (toLowerCase query));
          contentWords = split_nonword (toLowerCase (content chunk));
          keywordMatches =
            length (filter (\<lambda>qWord. list_ex (\<lambda>cWord. js_includes cWord qWord \<or> js_includes qWord cWord)
                                             contentWords) queryWords);
          keywordSimilarity =
            (if length queryWords > 0 then real keywordMatches / real (length queryWords) else 0)
      in keywordSimilarity * 0.7 + hashSimilarity * 0.3)"

text \<open>
  The same function in the arithmetic of the program. A JavaScript number is a
  binary64, and each division, multiplication and addition gives its exact result
  rounded to one; \<open>round64\<close> is that rounding of a real number (to the nearest
  binary64, ties to even). The two counts and the two lengths are integers and exact;
  the literals \<^verbatim>\<open>0.7\<close> and \<^verbatim>\<open>0.3\<close> are the binary64 numbers nearest to them.
  This is the number that \<^verbatim>\<open>calculateSimilarity\<close> returns and by which
  \<^verbatim>\<open>queryLibrary\<close> ranks; \<open>calculateSimilarity\<close> above is its value without
  rounding. \<open>round64\<close> is a parameter; no theorem below needs a property of it.
\<close>

definition calculateSimilarity_binary64 ::
  "(real \<Rightarrow> real) \<Rightarrow> (jsstring \<Rightarrow> 256 word) \<Rightarrow> (jsstring \<Rightarrow> jsstring) \<Rightarrow> jsstring
     \<Rightarrow> CompressedChunk \<Rightarrow> real" where
  "calculateSimilarity_binary64 round64 sha256 toLowerCase query chunk =
     (let queryHash = digest_hex (sha256 (toLowerCase query));
          chunkHash = hash chunk;
          hashSimilarity =
            round64 (real (hash_matches queryHash chunkHash) / real (length queryHash));
          queryWords = filter (\<lambda>w. length w > 3) (split_nonword (toLowerCase query));
          contentWords = split_nonword (toLowerCase (content chunk));
          keywordMatches =
            length (filter (\<lambda>qWord. list_ex (\<lambda>cWord. js_includes cWord qWord \<or> js_includes qWord cWord)
                                             contentWords) queryWords);
          keywordSimilarity =
            (if length queryWords > 0
             then round64 (real keywordMatches / real (length queryWords)) else 0)
      in round64 (round64 (keywordSimilarity * round64 0.7)
                  + round64 (hashSimilarity * round64 0.3)))"

section \<open>Libraries\<close>

text \<open>
  \<^verbatim>\<open>createLibrary\<close>. Chunk \<open>i\<close> gets the \<open>i\<close>-th identifier and the \<open>i\<close>-th
  reading of the clock; the two timestamps of the library are the next two readings.
\<close>

definition createLibrary ::
  "(jsstring \<Rightarrow> 256 word) \<Rightarrow> (nat \<Rightarrow> jsstring) \<Rightarrow> (nat \<Rightarrow> jsstring) \<Rightarrow>
     jsstring \<Rightarrow> jsstring \<Rightarrow> int \<Rightarrow> KnowledgeLibrary option" where
  "createLibrary sha256 uuids clock name' text n_max' =
     (case chunkText text 250 of
        None \<Rightarrow> None
      | Some textChunks \<Rightarrow>
          let compressedChunks =
                map (\<lambda>(i, chunk). compressChunk sha256 (uuids i) (clock i) chunk n_max')
                    (enumerate 0 textChunks);
              totalOriginalSize = length text;
              totalCompressedSize =
                foldl (\<lambda>sum chunk. sum + 32 + length (states (gravitational_bit chunk)) * 4)
                      0 compressedChunks;
              totalCompressionRatio = real totalOriginalSize / real totalCompressedSize
          in Some \<lparr> name = name', chunks = compressedChunks,
                    total_compression_ratio = totalCompressionRatio,
                    created_at = clock (length textChunks),
                    updated_at = clock (Suc (length textChunks)) \<rparr>)"

text \<open>
  \<^verbatim>\<open>queryLibrary\<close>. The scores are the binary64 numbers that the program computes.
  The sort reads the sign of the comparator only, and the binary64 difference of two
  binary64 numbers has the sign of their exact difference (a difference of two
  different ones is not rounded to 0); the difference is written without rounding.
\<close>

definition queryLibrary ::
  "(real \<Rightarrow> real) \<Rightarrow> (jsstring \<Rightarrow> 256 word) \<Rightarrow> (jsstring \<Rightarrow> jsstring) \<Rightarrow> KnowledgeLibrary
     \<Rightarrow> jsstring \<Rightarrow> int \<Rightarrow> CompressedChunk list" where
  "queryLibrary round64 sha256 toLowerCase library query topK =
     (let scoredChunks =
            map (\<lambda>chunk. (chunk, calculateSimilarity_binary64 round64 sha256 toLowerCase query chunk))
                (chunks library);
          sorted = js_sort (\<lambda>a b. snd b - snd a) scoredChunks
      in map fst (js_slice sorted 0 topK))"

definition verifyIntegrity :: "(jsstring \<Rightarrow> 256 word) \<Rightarrow> CompressedChunk \<Rightarrow> bool" where
  "verifyIntegrity sha256 chunk =
     (let recomputedHash = digest_hex (sha256 (content chunk))
      in recomputedHash = hash chunk)"

section \<open>The library store\<close>

text \<open>
  The \<^verbatim>\<open>Map\<close> of \<^verbatim>\<open>LibraryStorage\<close> is an association list in insertion order:
  \<^verbatim>\<open>set\<close> replaces the value of a key in place and appends a new key, \<^verbatim>\<open>delete\<close>
  removes the key and says whether it was there. Each method takes the store and
  returns the new one when it changes it.
\<close>

record LibraryStorage =
  libraries :: "(jsstring \<times> KnowledgeLibrary) list"

definition new_LibraryStorage :: LibraryStorage where
  "new_LibraryStorage = \<lparr> libraries = [] \<rparr>"

definition storage_save :: "KnowledgeLibrary \<Rightarrow> LibraryStorage \<Rightarrow> LibraryStorage" where
  "storage_save library st = st \<lparr> libraries := AList.update (name library) library (libraries st) \<rparr>"

definition storage_get :: "jsstring \<Rightarrow> LibraryStorage \<Rightarrow> KnowledgeLibrary option" where
  "storage_get nm st = map_of (libraries st) nm"

definition storage_exists :: "jsstring \<Rightarrow> LibraryStorage \<Rightarrow> bool" where
  "storage_exists nm st = list_ex (\<lambda>entry. fst entry = nm) (libraries st)"

definition storage_delete :: "jsstring \<Rightarrow> LibraryStorage \<Rightarrow> bool \<times> LibraryStorage" where
  "storage_delete nm st =
     (list_ex (\<lambda>entry. fst entry = nm) (libraries st),
      st \<lparr> libraries := filter (\<lambda>entry. fst entry \<noteq> nm) (libraries st) \<rparr>)"

definition storage_list :: "LibraryStorage \<Rightarrow> KnowledgeLibrary list" where
  "storage_list st = map snd (libraries st)"

definition storage_count :: "LibraryStorage \<Rightarrow> nat" where
  "storage_count st = length (libraries st)"

definition storage_clear :: "LibraryStorage \<Rightarrow> LibraryStorage" where
  "storage_clear st = st \<lparr> libraries := [] \<rparr>"

section \<open>\<^verbatim>\<open>queryLibrary\<close> on a heap of arrays\<close>

text \<open>
  \<open>queryLibrary\<close> above gives the value that the function returns. The library object
  and its array of chunks are shared with the store, and \<^verbatim>\<open>sort\<close> writes into the
  array it is called on; what the call writes to is seen on a heap. An address holds a
  library object (whose \<^verbatim>\<open>chunks\<close> is the address of an array), an array of chunks,
  or an array of the scored pairs \<^verbatim>\<open>{chunk, score}\<close>. \<^verbatim>\<open>map\<close> and \<^verbatim>\<open>slice\<close>
  allocate the array they return; \<^verbatim>\<open>sort\<close> overwrites its array. A read of an
  address that does not hold what the TypeScript type says is \<open>None\<close>.
\<close>

datatype heap_obj =
    LibraryObj jsstring nat real jsstring jsstring
  | ChunkArray "CompressedChunk list"
  | ScoredArray "(CompressedChunk \<times> real) list"

record heap =
  cells :: "nat \<Rightarrow> heap_obj option"
  next_ref :: nat

definition alloc :: "heap_obj \<Rightarrow> heap \<Rightarrow> nat \<times> heap" where
  "alloc obj h =
     (next_ref h, h \<lparr> cells := (cells h)(next_ref h \<mapsto> obj), next_ref := Suc (next_ref h) \<rparr>)"

definition array_map_score ::
  "(CompressedChunk \<Rightarrow> real) \<Rightarrow> nat \<Rightarrow> heap \<Rightarrow> (nat \<times> heap) option" where
  "array_map_score score r h =
     (case cells h r of
        Some (ChunkArray cs) \<Rightarrow> Some (alloc (ScoredArray (map (\<lambda>chunk. (chunk, score chunk)) cs)) h)
      | _ \<Rightarrow> None)"

definition array_sort ::
  "(CompressedChunk \<times> real \<Rightarrow> CompressedChunk \<times> real \<Rightarrow> real) \<Rightarrow> nat \<Rightarrow> heap \<Rightarrow> heap option" where
  "array_sort cmp r h =
     (case cells h r of
        Some (ScoredArray xs) \<Rightarrow> Some (h \<lparr> cells := (cells h)(r \<mapsto> ScoredArray (js_sort cmp xs)) \<rparr>)
      | _ \<Rightarrow> None)"

definition array_slice :: "nat \<Rightarrow> int \<Rightarrow> int \<Rightarrow> heap \<Rightarrow> (nat \<times> heap) option" where
  "array_slice r start stop h =
     (case cells h r of
        Some (ScoredArray xs) \<Rightarrow> Some (alloc (ScoredArray (js_slice xs start stop)) h)
      | _ \<Rightarrow> None)"

definition array_map_chunk :: "nat \<Rightarrow> heap \<Rightarrow> (nat \<times> heap) option" where
  "array_map_chunk r h =
     (case cells h r of
        Some (ScoredArray xs) \<Rightarrow> Some (alloc (ChunkArray (map fst xs)) h)
      | _ \<Rightarrow> None)"

definition queryLibrary_heap ::
  "(real \<Rightarrow> real) \<Rightarrow> (jsstring \<Rightarrow> 256 word) \<Rightarrow> (jsstring \<Rightarrow> jsstring) \<Rightarrow> nat \<Rightarrow> jsstring
     \<Rightarrow> int \<Rightarrow> heap \<Rightarrow> (nat \<times> heap) option" where
  "queryLibrary_heap round64 sha256 toLowerCase library query topK h =
     (case cells h library of
        Some (LibraryObj nm chunksRef ratio created updated) \<Rightarrow>
          (case array_map_score (calculateSimilarity_binary64 round64 sha256 toLowerCase query)
                  chunksRef h of
             None \<Rightarrow> None
           | Some (scoredChunks, h1) \<Rightarrow>
               (case array_sort (\<lambda>a b. snd b - snd a) scoredChunks h1 of
                  None \<Rightarrow> None
                | Some h2 \<Rightarrow>
                    (case array_slice scoredChunks 0 topK h2 of
                       None \<Rightarrow> None
                     | Some (topChunks, h3) \<Rightarrow> array_map_chunk topChunks h3)))
      | _ \<Rightarrow> None)"

text \<open>In a heap in use, no address from \<open>next_ref\<close> on is taken.\<close>

definition heap_ok :: "heap \<Rightarrow> bool" where
  "heap_ok h \<longleftrightarrow> (\<forall>a. next_ref h \<le> a \<longrightarrow> cells h a = None)"

section \<open>Notions of the specification\<close>

text \<open>
  The words of a text, as the specification of the chunker counts them: the maximal
  runs of characters that are not whitespace.
\<close>

function words_of :: "jsstring \<Rightarrow> jsstring list" where
  "words_of s =
     (case dropWhile is_space s of
        [] \<Rightarrow> []
      | c # r \<Rightarrow> takeWhile (\<lambda>x. \<not> is_space x) (c # r)
                 # words_of (dropWhile (\<lambda>x. \<not> is_space x) r))"
  by pat_completeness auto
termination
proof (relation "measure length", goal_cases)
  case 1
  show ?case by simp
next
  case (2 s c r)
  have "length (dropWhile (\<lambda>x. \<not> is_space x) r) \<le> length r"
    by (rule length_dropWhile_le)
  moreover have "length (dropWhile is_space s) \<le> length s"
    by (rule length_dropWhile_le)
  ultimately show ?case using 2 by simp
qed

declare words_of.simps [simp del]



section \<open>Auxiliary notions of the proofs\<close>

text \<open>A list cut into consecutive pieces of \<open>w\<close> elements, the last one maybe shorter.\<close>

function pieces :: "nat \<Rightarrow> 'a list \<Rightarrow> 'a list list" where
  "pieces w xs = (if xs = [] \<or> w = 0 then [] else take w xs # pieces w (drop w xs))"
  by pat_completeness auto
termination
  by (relation "measure (\<lambda>(w, xs). length xs)") auto

declare pieces.simps [simp del]

text \<open>
  What \<open>split_runs\<close> returns: no token contains a separator, and only the first and the
  last token can be empty.
\<close>

definition sep_free :: "('a \<Rightarrow> bool) \<Rightarrow> 'a list list \<Rightarrow> bool" where
  "sep_free sep ws \<longleftrightarrow> (\<forall>t \<in> set ws. \<forall>c \<in> set t. \<not> sep c)"

definition inner_nonempty :: "'a list list \<Rightarrow> bool" where
  "inner_nonempty ws \<longleftrightarrow> (\<forall>i. 0 < i \<and> Suc i < length ws \<longrightarrow> ws ! i \<noteq> [])"

section \<open>Data of the instances\<close>

text \<open>
  The SHA-256 digest of \<^verbatim>\<open>"abc"\<close>. The instances below are computed with the
  function that gives this digest to every string in the place of SHA-256, and with
  the identity in the place of \<^verbatim>\<open>toLowerCase\<close> (on strings without upper-case
  letters).
\<close>

definition sha_abc :: "256 word" where
  "sha_abc = 0xba7816bf8f01cfea414140de5dae2223b00361a396177a9cb410ff61f20015ad"

text \<open>
  The rounding of binary64 arithmetic, for the place of \<open>round64\<close>: to the nearest
  number with a significand of 53 bits, a tie to the one whose significand is even.
  \<open>float_exponent a\<close> is the \<open>e\<close> with \<open>2 ^ e \<le> a < 2 ^ (e + 1)\<close>, for \<open>a > 0\<close>; below
  \<open>2 ^ - 1022\<close> the numbers are the multiples of \<open>2 ^ - 1074\<close>. A real number has no
  infinity: the rounding is that of the platform for the numbers that do not overflow
  (the scores lie between 0 and 1).
\<close>

function bit_length :: "nat \<Rightarrow> nat" where
  "bit_length n = (if n = 0 then 0 else Suc (bit_length (n div 2)))"
  by pat_completeness auto
termination
  by (relation "measure (\<lambda>n. n)") auto

declare bit_length.simps [simp del]

definition float_exponent :: "real \<Rightarrow> int" where
  "float_exponent a =
     (if 1 \<le> a then int (bit_length (nat \<lfloor>a\<rfloor>)) - 1
      else - int (bit_length (nat (\<lceil>1 / a\<rceil> - 1))))"

definition round_half_even :: "real \<Rightarrow> int" where
  "round_half_even q =
     (let f = \<lfloor>q\<rfloor>; d = q - of_int f
      in if d < 1 / 2 then f else if 1 / 2 < d then f + 1 else if even f then f else f + 1)"

definition binary64 :: "real \<Rightarrow> real" where
  "binary64 x =
     (if x = 0 then 0
      else
        let a = \<bar>x\<bar>;
            e = max (float_exponent a) (- 1022);
            n = round_half_even (a * 2 powi (52 - e))
        in sgn x * of_int n * 2 powi (e - 52))"

text \<open>A library with no chunks, to put into a store.\<close>

definition demo_library :: KnowledgeLibrary where
  "demo_library = \<lparr> name = js ''demo'', chunks = [], total_compression_ratio = 0,
                     created_at = js ''t0'', updated_at = js ''t1'' \<rparr>"

text \<open>Three chunks with the same digest, and a library of them.\<close>

definition demo_chunk :: "string \<Rightarrow> string \<Rightarrow> CompressedChunk" where
  "demo_chunk uuid c = compressChunk (\<lambda>s. sha_abc) (js uuid) (js ''t0'') (js c) 15"

definition demo_chunks :: KnowledgeLibrary where
  "demo_chunks =
     \<lparr> name = js ''demo'',
       chunks = [demo_chunk ''id-1'' ''alpha beta'', demo_chunk ''id-2'' ''orbital model'',
                 demo_chunk ''id-3'' ''orbital states here''],
       total_compression_ratio = 0, created_at = js ''t0'', updated_at = js ''t1'' \<rparr>"

text \<open>
  Two chunks whose scores for \<open>tie_query\<close> are equal as real numbers and different
  as binary64 numbers: the first has 3 of the 14 query tokens and 6 digest characters,
  the second no token and 38 digest characters (\<open>0.7 * 3 / 14 + 0.3 * 6 / 64\<close> and
  \<open>0.3 * 38 / 64\<close> are both \<open>57 / 320\<close>). \<open>tie_sha\<close> gives the three strings digests
  that agree in that many leading characters.
\<close>

definition tie_query :: jsstring where
  "tie_query = js ''aaaa bbbb cccc dddd eeee ffff gggg hhhh iiii jjjj kkkk llll mmmm nnnn''"

definition tie_sha :: "jsstring \<Rightarrow> 256 word" where
  "tie_sha s =
     (if s = js ''aaaa bbbb cccc''
        then 0xba7816c09012d0fb525251ef6ebf3334c11472b4a7288badc5210072031126be
      else if s = js ''zzzz''
        then 0xba7816bf8f01cfea414140de5dae2223b00361b4a7288badc5210072031126be
      else sha_abc)"

definition tie_chunk_a :: CompressedChunk where
  "tie_chunk_a = compressChunk tie_sha (js ''id-1'') (js ''t0'') (js ''aaaa bbbb cccc'') 15"

definition tie_chunk_b :: CompressedChunk where
  "tie_chunk_b = compressChunk tie_sha (js ''id-2'') (js ''t0'') (js ''zzzz'') 15"

definition tie_library :: KnowledgeLibrary where
  "tie_library =
     \<lparr> name = js ''ties'', chunks = [tie_chunk_a, tie_chunk_b],
       total_compression_ratio = 0, created_at = js ''t0'', updated_at = js ''t1'' \<rparr>"

definition tie_query_words :: "jsstring list" where
  "tie_query_words =
     [js ''aaaa'', js ''bbbb'', js ''cccc'', js ''dddd'', js ''eeee'', js ''ffff'', js ''gggg'',
      js ''hhhh'', js ''iiii'', js ''jjjj'', js ''kkkk'', js ''llll'', js ''mmmm'', js ''nnnn'']"

text \<open>A heap with that library at address 1 and its array of chunks at address 0.\<close>

definition demo_heap :: heap where
  "demo_heap =
     \<lparr> cells = [0 \<mapsto> ChunkArray (chunks demo_chunks),
                1 \<mapsto> LibraryObj (js ''demo'') 0 0 (js ''t0'') (js ''t1'')],
       next_ref = 2 \<rparr>"

section \<open>The chunker: pieces of a text\<close>

lemma pieces_Nil [simp]: "pieces w [] = []"
  by (subst pieces.simps) simp

lemma pieces_step: "xs \<noteq> [] \<Longrightarrow> 0 < w \<Longrightarrow> pieces w xs = take w xs # pieces w (drop w xs)"
  by (subst pieces.simps) simp

lemma js_slice_window:
  assumes "0 \<le> i" "0 < w"
  shows "js_slice xs i (i + w) = take (nat w) (drop (nat i) xs)"
proof -
  have "nat (i + w) - nat i = nat w" using assms by linarith
  moreover have "nat (int (length xs) - i) = length xs - nat i" using assms by linarith
  moreover have "take (length xs - nat i) (drop (nat i) xs) = drop (nat i) xs" by simp
  moreover have "length xs - nat i \<le> nat w \<Longrightarrow> take (nat w) (drop (nat i) xs) = drop (nat i) xs"
    by simp
  ultimately show ?thesis
    using assms by (auto simp: js_slice_def Let_def min_def nat_diff_distrib)
qed

lemma chunk_loop_pieces:
  assumes "0 < w" "0 \<le> i"
  shows "chunk_loop ws w i acc =
         Some (acc @ map (js_join 0x20) (pieces (nat w) (drop (nat i) ws)))"
  using assms(2)
proof (induction "length ws - nat i" arbitrary: i acc rule: less_induct)
  case less
  show ?case
  proof (cases "i < int (length ws)")
    case True
    have step: "length ws - nat (i + w) < length ws - nat i"
      using True less.prems assms(1) by linarith
    have ne: "drop (nat i) ws \<noteq> []" using True less.prems by simp
    have d: "nat w + nat i = nat (i + w)"
      using less.prems assms(1) by linarith
    have "chunk_loop ws w i acc =
          chunk_loop ws w (i + w) (acc @ [js_join 0x20 (js_slice ws i (i + w))])"
      using True by (subst chunk_loop.simps) simp
    also have "\<dots> = Some ((acc @ [js_join 0x20 (js_slice ws i (i + w))]) @
                 map (js_join 0x20) (pieces (nat w) (drop (nat (i + w)) ws)))"
      using less.hyps [OF step] less.prems assms(1) by simp
    also have "\<dots> = Some (acc @ map (js_join 0x20) (pieces (nat w) (drop (nat i) ws)))"
      using assms(1) less.prems
      by (simp add: pieces_step [OF ne] js_slice_window d)
    finally show ?thesis .
  next
    case False
    then have "drop (nat i) ws = []" using less.prems by simp
    then show ?thesis using False
      by (subst chunk_loop.simps) simp
  qed
qed

lemma concat_pieces: "0 < w \<Longrightarrow> concat (pieces w xs) = xs"
proof (induction w xs rule: pieces.induct)
  case (1 w xs)
  then show ?case by (cases "xs = []") (simp_all add: pieces_step)
qed

lemma length_pieces: "0 < w \<Longrightarrow> length (pieces w xs) = (length xs + w - 1) div w"
proof (induction w xs rule: pieces.induct)
  case (1 w xs)
  show ?case
  proof (cases "xs = []")
    case True
    then show ?thesis using 1(2) by simp
  next
    case False
    then have pos: "0 < length xs" by simp
    have IH: "length (pieces w (drop w xs)) = (length xs - w + w - 1) div w"
      using 1 False by simp
    show ?thesis
    proof (cases "w \<le> length xs")
      case True
      then have "(length xs + w - 1) div w = (length xs - 1) div w + 1"
        using 1(2) pos
        by (metis Nat.add_diff_assoc2 Suc_leI div_add_self2 less_numeral_extra(3) One_nat_def)
      then show ?thesis using IH True 1(2) by (simp add: pieces_step [OF False])
    next
      case F: False
      then have "drop w xs = []" by simp
      moreover have "(length xs + w - 1) div w = 1"
      proof -
        have e: "length xs + w - 1 = w + (length xs - 1)" using pos by linarith
        have "(w + (length xs - 1)) div w = 1 + (length xs - 1) div w"
          using 1(2) by (simp only: div_add_self1)
        moreover have "(length xs - 1) div w = 0" using F pos by simp
        ultimately show ?thesis by (simp only: e)
      qed
      ultimately show ?thesis using 1(2)
        by (simp add: pieces_step [OF False])
    qed
  qed
qed

lemma pieces_sub:
  "0 < w \<Longrightarrow> p \<in> set (pieces w xs) \<Longrightarrow>
     p \<noteq> [] \<and> length p \<le> w \<and> (\<exists>a b. xs = a @ p @ b)"
proof (induction w xs rule: pieces.induct)
  case (1 w xs)
  from 1(3) have ne: "xs \<noteq> []" by auto
  from 1(3) 1(2) have "p = take w xs \<or> p \<in> set (pieces w (drop w xs))"
    by (simp add: pieces_step [OF ne])
  then show ?case
  proof
    assume p: "p = take w xs"
    have "xs = [] @ p @ drop w xs" using p by simp
    moreover have "p \<noteq> []" using p ne 1(2) by simp
    moreover have "length p \<le> w" using p by simp
    ultimately show ?thesis by blast
  next
    assume "p \<in> set (pieces w (drop w xs))"
    then have "p \<noteq> [] \<and> length p \<le> w \<and> (\<exists>a b. drop w xs = a @ p @ b)"
      using 1 ne by simp
    then obtain a b where *: "p \<noteq> []" "length p \<le> w" "drop w xs = a @ p @ b" by blast
    have "xs = (take w xs @ a) @ p @ b"
      using *(3) by (metis append.assoc append_take_drop_id)
    then show ?thesis using * by blast
  qed
qed

lemma split_runs_acc:
  "\<forall>c \<in> set t. \<not> sep c \<Longrightarrow> split_runs sep acc (t @ s) = split_runs sep (acc @ t) s"
proof (induction t arbitrary: acc)
  case Nil
  then show ?case by simp
next
  case (Cons a t)
  have "split_runs sep acc ((a # t) @ s) = split_runs sep (acc @ [a]) (t @ s)"
    using Cons.prems by simp
  also have "\<dots> = split_runs sep ((acc @ [a]) @ t) s"
    using Cons.prems by (intro Cons.IH) simp
  finally show ?case by simp
qed

lemma split_runs_hd: "hd (split_runs sep acc s) = acc @ takeWhile (\<lambda>x. \<not> sep x) s"
  by (induction sep acc s rule: split_runs.induct) simp_all

lemma split_runs_ne: "split_runs sep acc s \<noteq> []"
  by (induction sep acc s rule: split_runs.induct) simp_all

lemma split_runs_sep_free:
  "\<forall>c \<in> set acc. \<not> sep c \<Longrightarrow> sep_free sep (split_runs sep acc s)"
proof (induction sep acc s rule: split_runs.induct)
  case (1 sep acc)
  then show ?case by (simp add: sep_free_def)
next
  case (2 sep acc c cs)
  show ?case
  proof (cases "sep c")
    case True
    then have "sep_free sep (split_runs sep [] (dropWhile sep cs))"
      by (intro 2(1)) simp_all
    then show ?thesis using True 2(3) by (simp add: sep_free_def)
  next
    case False
    then have "sep_free sep (split_runs sep (acc @ [c]) cs)"
      using 2(3) by (intro 2(2)) simp_all
    then show ?thesis using False by simp
  qed
qed

lemma inner_nonempty_Cons:
  "inner_nonempty (x # r) \<longleftrightarrow> (\<forall>j. Suc j < length r \<longrightarrow> r ! j \<noteq> [])"
proof
  assume h: "inner_nonempty (x # r)"
  show "\<forall>j. Suc j < length r \<longrightarrow> r ! j \<noteq> []"
  proof (intro allI impI)
    fix j assume "Suc j < length r"
    then have "0 < Suc j \<and> Suc (Suc j) < length (x # r)" by simp
    with h have "(x # r) ! Suc j \<noteq> []" unfolding inner_nonempty_def by blast
    then show "r ! j \<noteq> []" by simp
  qed
next
  assume h: "\<forall>j. Suc j < length r \<longrightarrow> r ! j \<noteq> []"
  show "inner_nonempty (x # r)"
    unfolding inner_nonempty_def
  proof (intro allI impI)
    fix i assume "0 < i \<and> Suc i < length (x # r)"
    then obtain j where "i = Suc j" "Suc j < length r" by (cases i) auto
    with h show "(x # r) ! i \<noteq> []" by simp
  qed
qed

lemma split_runs_inner:
  "inner_nonempty (split_runs sep acc s)"
proof (induction sep acc s rule: split_runs.induct)
  case (1 sep acc)
  show ?case by (simp add: inner_nonempty_def)
next
  case (2 sep acc c cs)
  show ?case
  proof (cases "sep c")
    case False
    with 2 show ?thesis by simp
  next
    case True
    let ?s' = "dropWhile sep cs"
    let ?r = "split_runs sep [] ?s'"
    have IH: "inner_nonempty ?r" using 2 True by simp
    have "\<forall>j. Suc j < length ?r \<longrightarrow> ?r ! j \<noteq> []"
    proof (intro allI impI)
      fix j assume j: "Suc j < length ?r"
      show "?r ! j \<noteq> []"
      proof (cases j)
        case 0
        have "?s' \<noteq> []" using j by (cases ?s') auto
        then have "\<not> sep (hd ?s')" by (rule hd_dropWhile)
        then have "takeWhile (\<lambda>x. \<not> sep x) ?s' \<noteq> []"
          using \<open>?s' \<noteq> []\<close> by (cases ?s') auto
        then have "hd ?r \<noteq> []" by (simp add: split_runs_hd)
        then show ?thesis using 0 split_runs_ne [of sep "[]" ?s'] by (simp add: hd_conv_nth)
      next
        case (Suc k)
        then show ?thesis using IH j unfolding inner_nonempty_def by simp
      qed
    qed
    then have "inner_nonempty (acc # ?r)" by (simp only: inner_nonempty_Cons)
    then show ?thesis using True by simp
  qed
qed

lemma inner_nonempty_tl: "inner_nonempty (x # ws) \<Longrightarrow> inner_nonempty ws"
  unfolding inner_nonempty_def
proof (intro allI impI)
  fix i
  assume h: "\<forall>i. 0 < i \<and> Suc i < length (x # ws) \<longrightarrow> (x # ws) ! i \<noteq> []"
    and i: "0 < i \<and> Suc i < length ws"
  from i have "0 < Suc i \<and> Suc (Suc i) < length (x # ws)" by simp
  with h have "(x # ws) ! Suc i \<noteq> []" by blast
  then show "ws ! i \<noteq> []" by simp
qed

lemma inner_nonempty_second:
  assumes "inner_nonempty (x # y # z # zs)"
  shows "y \<noteq> []"
proof -
  have "0 < Suc 0 \<and> Suc (Suc 0) < length (x # y # z # zs)" by simp
  with assms have "(x # y # z # zs) ! Suc 0 \<noteq> []"
    unfolding inner_nonempty_def by blast
  then show ?thesis by simp
qed

lemma split_join_roundtrip:
  assumes "sep sp"
  shows "ws \<noteq> [] \<Longrightarrow> sep_free sep ws \<Longrightarrow> inner_nonempty ws \<Longrightarrow>
         split_runs sep acc (js_join sp ws) = (acc @ hd ws) # tl ws"
proof (induction ws arbitrary: acc)
  case Nil
  then show ?case by simp
next
  case (Cons x ws)
  have sx: "\<forall>c \<in> set x. \<not> sep c"
    using Cons.prems(2) by (simp add: sep_free_def)
  show ?case
  proof (cases ws)
    case Nil
    have "split_runs sep acc (x @ []) = split_runs sep (acc @ x) []"
      using sx by (rule split_runs_acc)
    then show ?thesis using Nil by simp
  next
    case ws: (Cons y ys)
    have sy: "\<forall>c \<in> set y. \<not> sep c"
      using Cons.prems(2) ws by (simp add: sep_free_def)
    have sf: "sep_free sep ws" using Cons.prems(2) by (simp add: sep_free_def)
    have inn: "inner_nonempty ws" using Cons.prems(3) by (rule inner_nonempty_tl)
    let ?rest = "js_join sp ws"
    have dw: "dropWhile sep ?rest = ?rest"
    proof (cases ys)
      case Nil
      then show ?thesis using sy ws by (cases y) auto
    next
      case (Cons z zs)
      have "y \<noteq> []"
        using Cons.prems(3) unfolding ws Cons by (rule inner_nonempty_second)
      then obtain a as where y: "y = a # as" by (cases y) auto
      then have "\<not> sep a" using sy by simp
      then show ?thesis using Cons y ws by simp
    qed
    have "split_runs sep acc (js_join sp (x # ws)) = split_runs sep acc (x @ (sp # ?rest))"
      using ws by simp
    also have "\<dots> = split_runs sep (acc @ x) (sp # ?rest)"
      using sx by (rule split_runs_acc)
    also have "\<dots> = (acc @ x) # split_runs sep [] ?rest"
      using assms dw by simp
    also have "split_runs sep [] ?rest = ([] @ hd ws) # tl ws"
      using ws by (intro Cons.IH sf inn) simp
    finally show ?thesis using ws by simp
  qed
qed


lemma sep_free_mid: "sep_free sep (a @ p @ b) \<Longrightarrow> sep_free sep p"
  by (auto simp: sep_free_def)

lemma inner_nonempty_mid:
  assumes "inner_nonempty (a @ p @ b)"
  shows "inner_nonempty p"
  unfolding inner_nonempty_def
proof (intro allI impI)
  fix i assume i: "0 < i \<and> Suc i < length p"
  then have "0 < length a + i \<and> Suc (length a + i) < length (a @ p @ b)" by simp
  with assms have "(a @ p @ b) ! (length a + i) \<noteq> []"
    unfolding inner_nonempty_def by blast
  then show "p ! i \<noteq> []" using i by (simp add: nth_append)
qed

lemma is_space_sp: "is_space 0x20"
  by (simp add: is_space_def)

lemma split_ws_join_piece:
  assumes "0 < w" "p \<in> set (pieces w (split_ws text))"
  shows "split_ws (js_join 0x20 p) = p"
proof -
  from pieces_sub [OF assms] obtain a b where
    ne: "p \<noteq> []" and ab: "split_ws text = a @ p @ b" by blast
  have "sep_free is_space (split_ws text)"
    unfolding split_ws_def by (rule split_runs_sep_free) simp
  then have sf: "sep_free is_space p" unfolding ab by (rule sep_free_mid)
  have "inner_nonempty (split_ws text)"
    unfolding split_ws_def by (rule split_runs_inner)
  then have inn: "inner_nonempty p" unfolding ab by (rule inner_nonempty_mid)
  have "split_runs is_space [] (js_join 0x20 p) = ([] @ hd p) # tl p"
    using is_space_sp ne sf inn by (rule split_join_roundtrip)
  then show ?thesis using ne by (simp add: split_ws_def)
qed

lemma chunkText_pieces:
  "0 < w \<Longrightarrow> chunkText text w = Some (map (js_join 0x20) (pieces (nat w) (split_ws text)))"
  using chunk_loop_pieces [of w 0 "split_ws text" "[]"] by (simp add: chunkText_def)

lemma ceiling_div_nat:
  assumes "0 < w"
  shows "int ((n + w - 1) div w) = \<lceil>real n / real w\<rceil>"
proof -
  have "\<lceil>real n / real w\<rceil> = \<lceil>real_of_int (int n) / real_of_int (int w)\<rceil>" by simp
  also have "\<dots> = - (- int n div int w)" by (rule ceiling_divide_eq_div)
  also have "\<dots> = (int n + int w - 1) div int w"
  proof -
    define q where "q = (int n + int w - 1) div int w"
    define r where "r = (int n + int w - 1) mod int w"
    have r: "0 \<le> r" "r < int w" using assms by (simp_all add: r_def)
    have "int n + int w - 1 = int w * q + r"
      by (simp add: q_def r_def)
    then have e: "- int n = int w * (- q) + (int w - 1 - r)" by (simp add: algebra_simps)
    have b: "0 \<le> int w - 1 - r" "int w - 1 - r < int w" using r by simp_all
    have "- int n div int w = - q" using e b by (rule int_div_pos_eq)
    then show ?thesis by (simp add: q_def)
  qed
  also have "\<dots> = int ((n + w - 1) div w)"
    using assms by (simp add: zdiv_int of_nat_diff)
  finally show ?thesis by simp
qed


lemma words_of_Nil: "dropWhile is_space s = [] \<Longrightarrow> words_of s = []"
  by (subst words_of.simps) (simp only: list.case)

lemma words_of_Cons:
  "dropWhile is_space s = c # r \<Longrightarrow>
   words_of s = takeWhile (\<lambda>x. \<not> is_space x) (c # r)
                # words_of (dropWhile (\<lambda>x. \<not> is_space x) r)"
  by (subst words_of.simps) (simp only: list.case)

lemma filter_split_runs:
  "filter (\<lambda>t. t \<noteq> []) (split_runs is_space acc s) =
     (let h = acc @ takeWhile (\<lambda>x. \<not> is_space x) s
      in (if h = [] then [] else [h]) @ words_of (dropWhile (\<lambda>x. \<not> is_space x) s))"
proof (induction "is_space" acc s rule: split_runs.induct)
  case (1 acc)
  then show ?case by (simp add: words_of_Nil)
next
  case (2 acc c cs)
  show ?case
  proof (cases "is_space c")
    case False
    then show ?thesis using 2(2) by (simp add: Let_def)
  next
    case True
    let ?s' = "dropWhile is_space cs"
    have IH: "filter (\<lambda>t. t \<noteq> []) (split_runs is_space [] ?s') =
       (let h = [] @ takeWhile (\<lambda>x. \<not> is_space x) ?s'
        in (if h = [] then [] else [h]) @ words_of (dropWhile (\<lambda>x. \<not> is_space x) ?s'))"
      using True by (rule 2(1))
    have w: "words_of (c # cs) = filter (\<lambda>t. t \<noteq> []) (split_runs is_space [] ?s')"
    proof (cases ?s')
      case Nil
      then have "dropWhile is_space (c # cs) = []" using True by simp
      then have "words_of (c # cs) = []" by (rule words_of_Nil)
      moreover have "split_runs is_space [] ?s' = [[]]" by (simp only: Nil split_runs.simps)
      ultimately show ?thesis by simp
    next
      case (Cons d r)
      have "\<not> is_space (hd ?s')" by (rule hd_dropWhile) (simp add: Cons)
      then have nd: "\<not> is_space d" using Cons by simp
      have "dropWhile is_space (c # cs) = d # r" using True Cons by simp
      then have "words_of (c # cs) = takeWhile (\<lambda>x. \<not> is_space x) (d # r)
                # words_of (dropWhile (\<lambda>x. \<not> is_space x) r)"
        by (rule words_of_Cons)
      then show ?thesis using IH nd unfolding Cons by (simp add: Let_def)
    qed
    show ?thesis using True w by (simp add: Let_def)
  qed
qed

lemma words_of_split_ws: "words_of s = filter (\<lambda>t. t \<noteq> []) (split_ws s)"
proof (cases "dropWhile is_space s")
  case Nil
  then have a: "words_of s = []" by (rule words_of_Nil)
  have "takeWhile (\<lambda>x. \<not> is_space x) s = [] \<and>
        dropWhile (\<lambda>x. \<not> is_space x) s = s"
    using Nil by (cases s) (auto split: if_splits)
  then show ?thesis using a by (simp add: split_ws_def filter_split_runs Let_def)
next
  case (Cons c r)
  have "\<not> is_space (hd (dropWhile is_space s))" by (rule hd_dropWhile) (simp add: Cons)
  then have nc: "\<not> is_space c" using Cons by simp
  show ?thesis
  proof (cases s)
    case Nil
    then show ?thesis using Cons by simp
  next
    case s: (Cons d ds)
    show ?thesis
    proof (cases "is_space d")
      case True
      then have "takeWhile (\<lambda>x. \<not> is_space x) s = [] \<and>
        dropWhile (\<lambda>x. \<not> is_space x) s = s" using s by simp
      then show ?thesis by (simp add: split_ws_def filter_split_runs Let_def)
    next
      case False
      then have "dropWhile is_space s = s" using s by simp
      then have "words_of s = takeWhile (\<lambda>x. \<not> is_space x) (d # ds)
                # words_of (dropWhile (\<lambda>x. \<not> is_space x) ds)"
        using s by (intro words_of_Cons) simp
      then show ?thesis using False s by (simp add: split_ws_def filter_split_runs Let_def)
    qed
  qed
qed

lemma last_dropWhile_same: "dropWhile P xs \<noteq> [] \<Longrightarrow> last (dropWhile P xs) = last xs"
  by (induction xs) (auto split: if_splits)

lemma dropWhile_Nil_last: "xs \<noteq> [] \<Longrightarrow> dropWhile P xs = [] \<Longrightarrow> P (last xs)"
  by (induction xs) (auto split: if_splits)

lemma split_runs_count:
  "length (split_runs sep acc s) =
     length (filter (\<lambda>t. t \<noteq> []) (split_runs sep acc s))
     + (if acc = [] \<and> (s = [] \<or> sep (hd s)) then 1 else 0)
     + (if s \<noteq> [] \<and> sep (last s) then 1 else 0)"
proof (induction sep acc s rule: split_runs.induct)
  case (1 sep acc)
  show ?case by simp
next
  case (2 sep acc c cs)
  show ?case
  proof (cases "sep c")
    case False
    then show ?thesis using 2(2) by (cases "cs = []") simp_all
  next
    case True
    let ?s' = "dropWhile sep cs"
    let ?R = "split_runs sep [] ?s'"
    have IH: "length ?R = length (filter (\<lambda>t. t \<noteq> []) ?R)
        + (if ?s' = [] \<or> sep (hd ?s') then 1 else 0)
        + (if ?s' \<noteq> [] \<and> sep (last ?s') then 1 else 0)"
      using True 2(1) by simp
    have tail: "(if ?s' = [] \<or> sep (hd ?s') then 1 else 0)
              + (if ?s' \<noteq> [] \<and> sep (last ?s') then 1 else 0)
              = (if sep (last (c # cs)) then 1 else (0::nat))"
    proof (cases "?s' = []")
      case e: True
      have "sep (last (c # cs))"
      proof (cases "cs = []")
        case True
        then show ?thesis using \<open>sep c\<close> by simp
      next
        case False
        then have "sep (last cs)" using e by (rule dropWhile_Nil_last)
        then show ?thesis using False by simp
      qed
      then show ?thesis using e by simp
    next
      case ne: False
      then have "\<not> sep (hd ?s')" by (rule hd_dropWhile)
      moreover have "last ?s' = last cs" using ne by (rule last_dropWhile_same)
      moreover have "cs \<noteq> []" using ne by auto
      ultimately show ?thesis using ne by simp
    qed
    have "length (split_runs sep acc (c # cs)) = Suc (length ?R)"
      using True by simp
    moreover have "length (filter (\<lambda>t. t \<noteq> []) (split_runs sep acc (c # cs)))
        = (if acc = [] then 0 else 1) + length (filter (\<lambda>t. t \<noteq> []) ?R)"
      using True by simp
    ultimately show ?thesis
      using IH tail True by simp
  qed
qed

lemma split_ws_count:
  "length (split_ws text) =
     length (words_of text)
     + (if text = [] \<or> is_space (hd text) then 1 else 0)
     + (if text \<noteq> [] \<and> is_space (last text) then 1 else 0)"
  using split_runs_count [of is_space "[]" "text"]
  by (simp add: words_of_split_ws split_ws_def)

text \<open>
  Claim C2, as amended. For every text and every positive chunk size \<open>w\<close>,
  \<open>chunkText\<close> returns, and with \<open>T\<close> the number of tokens of
  \<^verbatim>\<open>text.split(/\s+/)\<close> it returns exactly \<open>ceil (T / w)\<close> pieces. Each piece has at
  most \<open>w\<close> tokens and at most \<open>w\<close> words, and concatenating the tokens (the words)
  of all pieces in order gives the tokens (the words) of the text. \<open>T\<close> is the number
  \<open>W\<close> of words of the text, plus one if the text is empty or starts with whitespace,
  plus one if it ends with whitespace.
\<close>

theorem chunkText_pieces_tokens:
  assumes "0 < w"
  shows "(\<exists>ps. chunkText text w = Some ps
           \<and> int (length ps) = \<lceil>real (length (split_ws text)) / real_of_int w\<rceil>
           \<and> list_all (\<lambda>p. length (split_ws p) \<le> nat w \<and> length (words_of p) \<le> nat w) ps
           \<and> concat (map split_ws ps) = split_ws text
           \<and> concat (map words_of ps) = words_of text)
       \<and> length (split_ws text) =
           length (words_of text)
           + (if text = [] \<or> is_space (hd text) then 1 else 0)
           + (if text \<noteq> [] \<and> is_space (last text) then 1 else 0)"
proof (rule conjI)
  let ?W = "split_ws text"
  let ?ps = "map (js_join 0x20) (pieces (nat w) ?W)"
  have w: "0 < nat w" using assms by simp
  have rt: "\<And>p. p \<in> set (pieces (nat w) ?W) \<Longrightarrow> split_ws (js_join 0x20 p) = p"
    using w by (rule split_ws_join_piece)
  have 1: "chunkText text w = Some ?ps" using assms by (rule chunkText_pieces)
  have "length ?ps = (length ?W + nat w - 1) div nat w"
    using w by (simp add: length_pieces)
  then have "int (length ?ps) = \<lceil>real (length ?W) / real (nat w)\<rceil>"
    using ceiling_div_nat [OF w, of "length ?W"] by (simp only:)
  moreover have "real (nat w) = real_of_int w" using assms by simp
  ultimately have 2: "int (length ?ps) = \<lceil>real (length ?W) / real_of_int w\<rceil>"
    by (simp only:)
  have m: "map split_ws ?ps = pieces (nat w) ?W"
    using rt by (simp add: map_idI)
  have 4: "concat (map split_ws ?ps) = ?W"
    unfolding m using w by (rule concat_pieces)
  have wl: "\<And>s. length (words_of s) \<le> length (split_ws s)"
    by (simp add: words_of_split_ws)
  have 3: "list_all (\<lambda>p. length (split_ws p) \<le> nat w \<and> length (words_of p) \<le> nat w) ?ps"
  proof -
    have "length (split_ws (js_join 0x20 p)) \<le> nat w
          \<and> length (words_of (js_join 0x20 p)) \<le> nat w"
      if "p \<in> set (pieces (nat w) ?W)" for p
    proof -
      have "length p \<le> nat w" using pieces_sub [OF w that] by simp
      then have "length (split_ws (js_join 0x20 p)) \<le> nat w" using rt [OF that] by simp
      then show ?thesis using wl [of "js_join 0x20 p"] by simp
    qed
    then show ?thesis by (simp add: list_all_iff)
  qed
  have "concat (map words_of ?ps) = filter (\<lambda>t. t \<noteq> []) (concat (map split_ws ?ps))"
    by (simp add: words_of_split_ws filter_concat comp_def)
  then have 5: "concat (map words_of ?ps) = words_of text"
    by (simp only: 4 words_of_split_ws)
  show "\<exists>ps. chunkText text w = Some ps
           \<and> int (length ps) = \<lceil>real (length (split_ws text)) / real_of_int w\<rceil>
           \<and> list_all (\<lambda>p. length (split_ws p) \<le> nat w \<and> length (words_of p) \<le> nat w) ps
           \<and> concat (map split_ws ps) = split_ws text
           \<and> concat (map words_of ps) = words_of text"
    using 1 2 3 4 5 by blast
  show "length (split_ws text) =
           length (words_of text)
           + (if text = [] \<or> is_space (hd text) then 1 else 0)
           + (if text \<noteq> [] \<and> is_space (last text) then 1 else 0)"
    by (rule split_ws_count)
qed

theorem chunkText_pieces_tokens_witness:
  "\<exists>ps. chunkText (js ''a b c'') 2 = Some ps
           \<and> int (length ps) = \<lceil>real (length (split_ws (js ''a b c''))) / real_of_int 2\<rceil>
           \<and> list_all (\<lambda>p. length (split_ws p) \<le> nat 2 \<and> length (words_of p) \<le> nat 2) ps
           \<and> concat (map split_ws ps) = split_ws (js ''a b c'')
           \<and> concat (map words_of ps) = words_of (js ''a b c'')"
proof -
  have h: "(0::int) < 2" by simp
  show ?thesis by (rule chunkText_pieces_tokens [OF h, THEN conjunct1])
qed

text \<open>
  Claim C2 as stated counts the words of the text. The text \<^verbatim>\<open>"a "\<close> has one word,
  and with chunk size 1 it is cut into two pieces, \<^verbatim>\<open>"a"\<close> and the empty string,
  where \<open>ceil (1 / 1) = 1\<close>.
\<close>

theorem chunkText_count_counterexample:
  "chunkText (js ''a '') 1 = Some [js ''a'', js '''']
   \<and> words_of (js ''a '') = [js ''a'']
   \<and> int (length [js ''a'', js '''']) \<noteq> \<lceil>real (length [js ''a'']) / real_of_int 1\<rceil>"
  by (simp add: chunkText_def split_ws_def js_def is_space_def chunk_loop.simps js_slice_def
        words_of_split_ws)

section \<open>The descriptor encoder: the states of a digest\<close>

lemma unat_small16: "k < 65536 \<Longrightarrow> unat (of_nat k :: 16 word) = k"
  by (simp add: unat_of_nat)

lemma low_byte_small:
  assumes "k < 256"
  shows "(of_nat k :: 16 word) AND 0xFF = of_nat k"
proof -
  have "unat (of_nat k :: 16 word) = k"
    using assms by (intro unat_small16) simp
  then have "uint (of_nat k :: 16 word) < 2 ^ 8"
    using assms by (simp add: uint_nat)
  then have "(of_nat k :: 16 word) AND mask 8 = of_nat k"
    by (simp only: mask_eq_iff)
  then show ?thesis by (simp add: mask_eq_exp_minus_1)
qed

lemma hex_val_hex_digit:
  assumes "n < 16"
  shows "hex_val (hex_digit n) = Some n"
proof (cases "n < 10")
  case True
  then have u: "unat (of_nat (48 + n) :: 16 word) = 48 + n"
    by (intro unat_small16) simp
  have b: "(of_nat (48 + n) :: 16 word) AND 0xFF = of_nat (48 + n)"
    using True by (intro low_byte_small) simp
  show ?thesis
    using True
    by (simp only: hex_val_def hex_digit_def Let_def b word_le_nat_alt u if_True) simp
next
  case False
  then have u: "unat (of_nat (87 + n) :: 16 word) = 87 + n"
    using assms by (intro unat_small16) simp
  have b: "(of_nat (87 + n) :: 16 word) AND 0xFF = of_nat (87 + n)"
    using assms by (intro low_byte_small) simp
  show ?thesis
    using False assms
    by (simp only: hex_val_def hex_digit_def Let_def b word_le_nat_alt u if_False) simp
qed

lemma buffer_from_hex_byte:
  "buffer_from_hex (hex_of_byte b @ rest) = b # buffer_from_hex rest"
proof -
  have "unat b < 256" using unsigned_less [of b, where 'a = nat] by simp
  then have "unat b div 16 < 16" by simp
  then have 1: "hex_val (hex_digit (unat b div 16)) = Some (unat b div 16)"
    by (rule hex_val_hex_digit)
  have 2: "hex_val (hex_digit (unat b mod 16)) = Some (unat b mod 16)"
    by (rule hex_val_hex_digit) simp
  show ?thesis
    by (simp add: hex_of_byte_def 1 2 del: of_nat_add of_nat_mult)
qed

lemma buffer_from_hex_concat:
  "buffer_from_hex (concat (map hex_of_byte bs)) = bs"
proof (induction bs)
  case Nil
  show ?case by simp
next
  case (Cons b bs)
  then show ?case by (simp add: buffer_from_hex_byte)
qed

lemma buffer_from_digest_hex: "buffer_from_hex (digest_hex d) = digest_bytes d"
  by (simp add: digest_hex_def buffer_from_hex_concat)

lemma length_digest_bytes: "length (digest_bytes d) = 32"
  by (simp add: digest_bytes_def)

lemma js_slice_prefix: "0 \<le> k \<Longrightarrow> js_slice xs 0 k = take (nat k) xs"
  by (auto simp: js_slice_def Let_def min_def)

lemma states_loop_upto:
  "states_loop bs m n acc = acc @ map (occupation bs) [n..m]"
proof (induction bs m n acc rule: states_loop.induct)
  case (1 bs m n acc)
  show ?case
  proof (cases "n \<le> m")
    case True
    then have "states_loop bs m n acc = states_loop bs m (n + 1) (acc @ [occupation bs n])"
      by (subst states_loop.simps) simp
    also have "\<dots> = (acc @ [occupation bs n]) @ map (occupation bs) [n + 1..m]"
      using True by (rule 1)
    also have "\<dots> = acc @ map (occupation bs) [n..m]"
      using True by (simp add: upto_rec1)
    finally show ?thesis .
  next
    case False
    then show ?thesis by (subst states_loop.simps) simp
  qed
qed

lemma calculateGravitationalStates_digest:
  "calculateGravitationalStates (digest_hex d) m =
     map (occupation (take 16 (digest_bytes d))) [1..m]"
  by (simp add: calculateGravitationalStates_def buffer_from_digest_hex js_slice_prefix
        states_loop_upto)

lemma js_rem_nonneg: "0 \<le> a \<Longrightarrow> 0 < m \<Longrightarrow> js_rem a m = a mod m"
  by (cases "a = 0") (simp_all add: js_rem_def sgn_if)

lemma occupation_16:
  assumes "length rb = 16" "1 \<le> n"
  shows "occupation rb n = Some (uint (rb ! nat ((n - 1) mod 16)) mod (2 * n * n + 1))"
proof -
  have ne: "rb \<noteq> []" using assms(1) by auto
  have r1: "js_rem (n - 1) 16 = (n - 1) mod 16"
    using assms(2) by (intro js_rem_nonneg) simp_all
  have "0 \<le> n * n" by simp
  then have pos: "0 < 2 * n * n + 1" by simp
  have r2: "js_rem (uint b) (2 * n * n + 1) = uint b mod (2 * n * n + 1)" for b :: byte
    using pos by (intro js_rem_nonneg) simp_all
  show ?thesis
    using ne by (simp add: occupation_def Let_def assms(1) r1 r2)
qed

lemma occupation_digest:
  assumes "1 \<le> n"
  shows "occupation (take 16 (digest_bytes d)) n =
         Some (uint (digest_bytes d ! nat ((n - 1) mod 16)) mod (2 * n * n + 1))"
proof -
  have len: "length (take 16 (digest_bytes d)) = 16" by (simp add: length_digest_bytes)
  have lt: "nat ((n - 1) mod 16) < 16" by simp
  have nth: "take 16 (digest_bytes d) ! nat ((n - 1) mod 16) = digest_bytes d ! nat ((n - 1) mod 16)"
    using lt by (rule nth_take)
  show ?thesis
    using occupation_16 [OF len assms] by (simp only: nth)
qed

lemma states_digest_nth:
  assumes "1 \<le> n" "n \<le> m"
  shows "calculateGravitationalStates (digest_hex d) m ! nat (n - 1) =
         Some (uint (digest_bytes d ! nat ((n - 1) mod 16)) mod (2 * n * n + 1))"
proof -
  have "nat (n - 1) < length [1..m]" using assms by simp
  moreover have "[1..m] ! nat (n - 1) = n" using assms by (simp add: nth_upto)
  ultimately show ?thesis
    using assms(1) by (simp add: calculateGravitationalStates_digest occupation_digest)
qed

lemma states_digest_length:
  "length (calculateGravitationalStates (digest_hex d) m) = nat m"
  by (simp add: calculateGravitationalStates_digest)

lemma states_of_compressChunk:
  "states (gravitational_bit (compressChunk sha256 uuid now c m)) =
     calculateGravitationalStates (digest_hex (sha256 c)) m"
  by (simp add: compressChunk_def Let_def)

text \<open>
  Claim C1. For every content string and every integer \<open>nMax \<ge> 1\<close>, the states of the
  descriptor that \<open>compressChunk\<close> builds are \<open>nMax\<close> numbers, and for each level \<open>n\<close>
  from 1 to \<open>nMax\<close> the state of level \<open>n\<close> (at index \<open>n - 1\<close>) is byte
  \<open>(n - 1) mod 16\<close> of the raw SHA-256 digest of the content, modulo \<open>2 * n * n + 1\<close>;
  so it lies between 0 and \<open>2 * n * n\<close>.
\<close>

theorem compressChunk_states:
  assumes "1 \<le> nMax" and "1 \<le> n" and "n \<le> nMax"
  shows "length (states (gravitational_bit (compressChunk sha256 uuid now c nMax))) = nat nMax
       \<and> states (gravitational_bit (compressChunk sha256 uuid now c nMax)) ! nat (n - 1)
           = Some (uint (digest_bytes (sha256 c) ! nat ((n - 1) mod 16)) mod (2 * n * n + 1))
       \<and> 0 \<le> uint (digest_bytes (sha256 c) ! nat ((n - 1) mod 16)) mod (2 * n * n + 1)
       \<and> uint (digest_bytes (sha256 c) ! nat ((n - 1) mod 16)) mod (2 * n * n + 1) \<le> 2 * n * n"
proof (intro conjI)
  show "length (states (gravitational_bit (compressChunk sha256 uuid now c nMax))) = nat nMax"
    by (simp only: states_of_compressChunk states_digest_length)
next
  show "states (gravitational_bit (compressChunk sha256 uuid now c nMax)) ! nat (n - 1)
      = Some (uint (digest_bytes (sha256 c) ! nat ((n - 1) mod 16)) mod (2 * n * n + 1))"
    using assms(2,3) by (simp only: states_of_compressChunk states_digest_nth)
next
  have "0 \<le> n * n" by simp
  then have pos: "0 < 2 * n * n + 1" by simp
  then show "0 \<le> uint (digest_bytes (sha256 c) ! nat ((n - 1) mod 16)) mod (2 * n * n + 1)"
    by (rule pos_mod_sign)
  have "uint (digest_bytes (sha256 c) ! nat ((n - 1) mod 16)) mod (2 * n * n + 1) < 2 * n * n + 1"
    using pos by (rule pos_mod_bound)
  then show "uint (digest_bytes (sha256 c) ! nat ((n - 1) mod 16)) mod (2 * n * n + 1) \<le> 2 * n * n"
    by simp
qed

theorem compressChunk_states_witness:
  "length (states (gravitational_bit (compressChunk (\<lambda>s. sha_abc) [] [] (js ''abc'') 3))) = 3
   \<and> states (gravitational_bit (compressChunk (\<lambda>s. sha_abc) [] [] (js ''abc'') 3)) ! 1 = Some 3"
proof -
  have b: "digest_bytes sha_abc ! Suc 0 = 0x78"
    by (simp add: digest_bytes_def sha_abc_def)
  show ?thesis
    using compressChunk_states [of 3 2 "\<lambda>s. sha_abc" "[]" "[]" "js ''abc''"]
    by (simp add: b)
qed

section \<open>The descriptor encoder: parameters below 1, and determinism\<close>

lemma calculateGravitationalStates_below_1:
  "nMax < 1 \<Longrightarrow> calculateGravitationalStates h nMax = []"
  by (simp add: calculateGravitationalStates_def Let_def states_loop_upto)

text \<open>
  Claim C7, as amended. For every input with \<open>nMax < 1\<close> the encoder does not
  reject the call: it returns, and the descriptor it returns has the digest of the
  content, no state at all (the loop over the levels is not entered, so no modulo is
  computed), \<open>nMax\<close> as it was given, and the compression ratio of a descriptor of
  32 bytes.
\<close>

theorem compressChunk_below_1:
  assumes "nMax < 1"
  shows "gravitational_bit (compressChunk sha256 uuid now c nMax) =
           \<lparr> GravitationalBit.hash = digest_hex (sha256 c), states = [], n_max = nMax,
             compression_ratio = real (utf8_byteLength c) / 32 \<rparr>"
  using assms by (simp add: compressChunk_def Let_def calculateGravitationalStates_below_1)

theorem compressChunk_below_1_witness:
  "gravitational_bit (compressChunk (\<lambda>s. sha_abc) (js ''id-1'') (js ''t0'') (js ''abc'') (- 2)) =
           \<lparr> GravitationalBit.hash = digest_hex sha_abc, states = [], n_max = - 2,
             compression_ratio = 3 / 32 \<rparr>"
  using compressChunk_below_1 [of "- 2" "\<lambda>s. sha_abc" "js ''id-1''" "js ''t0''" "js ''abc''"]
  by (simp add: js_def)

text \<open>
  Claim C7 as stated has the encoder reject \<open>nMax < 1\<close> before it computes
  anything. With \<open>nMax = 0\<close> the call returns a chunk with its descriptor.
\<close>

theorem compressChunk_no_rejection_counterexample:
  "compressChunk (\<lambda>s. sha_abc) (js ''id-1'') (js ''t0'') (js ''abc'') 0 =
     \<lparr> id = js ''id-1'', content = js ''abc'', hash = digest_hex sha_abc,
       gravitational_bit =
         \<lparr> GravitationalBit.hash = digest_hex sha_abc, states = [], n_max = 0,
           compression_ratio = 3 / 32 \<rparr>,
       metadata = \<lparr> word_count = 1, character_count = 3, ChunkMetadata.created_at = js ''t0'' \<rparr> \<rparr>"
  by (simp add: compressChunk_def Let_def calculateGravitationalStates_below_1 js_def
        split_ws_def is_space_def)

text \<open>
  Claim C8. For every content \<open>c\<close> and parameter \<open>nMax\<close>, two calls of the encoder
  give the same descriptor (digest, states, \<open>n_max\<close> and compression ratio) and the
  same chunk digest, whatever identifier and timestamp each call draws; the descriptor
  is the one written out in the last four equations, in which neither occurs.
\<close>

theorem compressChunk_descriptor_deterministic:
  "gravitational_bit (compressChunk sha256 uuid1 now1 c nMax) =
     gravitational_bit (compressChunk sha256 uuid2 now2 c nMax)
   \<and> hash (compressChunk sha256 uuid1 now1 c nMax) = hash (compressChunk sha256 uuid2 now2 c nMax)
   \<and> GravitationalBit.hash (gravitational_bit (compressChunk sha256 uuid1 now1 c nMax))
       = digest_hex (sha256 c)
   \<and> states (gravitational_bit (compressChunk sha256 uuid1 now1 c nMax))
       = calculateGravitationalStates (digest_hex (sha256 c)) nMax
   \<and> n_max (gravitational_bit (compressChunk sha256 uuid1 now1 c nMax)) = nMax
   \<and> compression_ratio (gravitational_bit (compressChunk sha256 uuid1 now1 c nMax))
       = real (utf8_byteLength c)
         / real (32 + length (calculateGravitationalStates (digest_hex (sha256 c)) nMax) * 4)"
  by (simp add: compressChunk_def Let_def)

theorem compressChunk_descriptor_deterministic_witness:
  "gravitational_bit (compressChunk (\<lambda>s. sha_abc) (js ''id-1'') (js ''t0'') (js ''abc'') 15) =
     gravitational_bit (compressChunk (\<lambda>s. sha_abc) (js ''id-2'') (js ''t1'') (js ''abc'') 15)"
  using compressChunk_descriptor_deterministic
    [of "\<lambda>s. sha_abc" "js ''id-1''" "js ''t0''" "js ''abc''" 15 "js ''id-2''" "js ''t1''"]
  by (rule conjunct1)

section \<open>Integrity of a new library\<close>

lemma verifyIntegrity_compressChunk:
  "verifyIntegrity sha256 (compressChunk sha256 uuid now c nMax)"
  by (simp add: verifyIntegrity_def compressChunk_def Let_def)

text \<open>
  Claim C5. For every name, text and \<open>nMax\<close>, \<open>createLibrary\<close> returns a library,
  and \<open>verifyIntegrity\<close> holds of every chunk of it: the recorded digest is the
  SHA-256 digest of the content.
\<close>

theorem createLibrary_verified:
  "\<exists>library. createLibrary sha256 uuids clock nm text nMax = Some library
      \<and> list_all (verifyIntegrity sha256) (chunks library)"
proof -
  have "chunkText text 250 = Some (map (js_join 0x20) (pieces (nat 250) (split_ws text)))"
    by (rule chunkText_pieces) simp
  then show ?thesis
    by (simp add: createLibrary_def Let_def list_all_iff verifyIntegrity_compressChunk split_beta)
qed

theorem createLibrary_verified_witness:
  "\<exists>library. createLibrary (\<lambda>s. sha_abc) (\<lambda>i. js ''id'') (\<lambda>i. js ''t'') (js ''demo'') (js ''a b c'') 15
        = Some library
      \<and> list_all (verifyIntegrity (\<lambda>s. sha_abc)) (chunks library)"
  by (rule createLibrary_verified)

section \<open>The library store: deleting\<close>

lemma list_ex_filter_neq: "\<not> list_ex (\<lambda>entry. fst entry = nm) (filter (\<lambda>entry. fst entry \<noteq> nm) xs)"
  by (simp add: list_ex_iff)

lemma filter_neq_absent:
  "\<not> list_ex (\<lambda>entry. fst entry = nm) xs \<Longrightarrow> filter (\<lambda>entry. fst entry \<noteq> nm) xs = xs"
  by (simp add: list_ex_iff filter_id_conv)

text \<open>
  Claim C9. For every name and store: if the store contains a library of that name,
  the first of two deletions in a row reports \<open>True\<close> and the second \<open>False\<close>; if it
  does not, the deletion is no error, reports \<open>False\<close> and leaves the store as it was.
\<close>

theorem storage_delete_twice:
  "(storage_exists nm st \<longrightarrow>
      fst (storage_delete nm st) = True
      \<and> fst (storage_delete nm (snd (storage_delete nm st))) = False)
   \<and> (\<not> storage_exists nm st \<longrightarrow> storage_delete nm st = (False, st))"
  by (simp add: storage_exists_def storage_delete_def list_ex_filter_neq filter_neq_absent)

theorem storage_delete_twice_witness:
  "storage_exists (js ''demo'') (storage_save demo_library new_LibraryStorage)
   \<and> fst (storage_delete (js ''demo'') (storage_save demo_library new_LibraryStorage)) = True
   \<and> fst (storage_delete (js ''demo'')
            (snd (storage_delete (js ''demo'') (storage_save demo_library new_LibraryStorage)))) = False
   \<and> \<not> storage_exists (js ''demo'') new_LibraryStorage
   \<and> storage_delete (js ''demo'') new_LibraryStorage = (False, new_LibraryStorage)"
proof -
  have a: "storage_exists (js ''demo'') (storage_save demo_library new_LibraryStorage)"
    by (simp add: storage_exists_def storage_save_def new_LibraryStorage_def demo_library_def)
  have b: "\<not> storage_exists (js ''demo'') new_LibraryStorage"
    by (simp add: storage_exists_def new_LibraryStorage_def)
  show ?thesis
    using a b
      storage_delete_twice [of "js ''demo''" "storage_save demo_library new_LibraryStorage"]
      storage_delete_twice [of "js ''demo''" new_LibraryStorage]
    by blast
qed

section \<open>The similarity scorer\<close>






lemma length_hex_of_byte: "length (hex_of_byte b) = 2"
  by (simp add: hex_of_byte_def)

lemma length_concat_hex: "length (concat (map hex_of_byte bs)) = 2 * length bs"
  by (induction bs) (simp_all add: length_hex_of_byte)

lemma length_digest_hex: "length (digest_hex d) = 64"
  by (simp add: digest_hex_def length_concat_hex length_digest_bytes)






lemma hash_matches_same: "hash_matches h h = length h"
  by (induction h) simp_all



section \<open>Ranking: the stable sort and the top of it\<close>

lemma length_insert_by: "length (insert_by cmp x ys) = Suc (length ys)"
  by (induction ys) simp_all

lemma set_insert_by: "set (insert_by cmp x ys) = insert x (set ys)"
  by (induction ys) auto

lemma length_js_sort: "length (js_sort cmp xs) = length xs"
  by (induction xs) (simp_all add: js_sort_def length_insert_by)

lemma set_js_sort: "set (js_sort cmp xs) = set xs"
  by (induction xs) (simp_all add: js_sort_def set_insert_by)

lemma insert_by_descending:
  assumes "sorted_wrt (\<lambda>a b. snd b \<le> snd a) ys"
  shows "sorted_wrt (\<lambda>a b. snd b \<le> snd a) (insert_by (\<lambda>a b. snd b - snd a) x ys)"
  using assms
proof (induction ys)
  case Nil
  show ?case by simp
next
  case (Cons y ys)
  show ?case
  proof (cases "snd y \<le> snd x")
    case True
    have "\<forall>z \<in> set ys. snd z \<le> snd x"
      using Cons.prems True by auto
    then show ?thesis using Cons.prems True by simp
  next
    case False
    have "sorted_wrt (\<lambda>a b. snd b \<le> snd a) (insert_by (\<lambda>a b. snd b - snd a) x ys)"
      using Cons.prems by (intro Cons.IH) simp
    moreover have "\<forall>z \<in> set (insert_by (\<lambda>a b. snd b - snd a) x ys). snd z \<le> snd y"
      using Cons.prems False by (auto simp: set_insert_by)
    ultimately show ?thesis using False by simp
  qed
qed

lemma js_sort_descending:
  "sorted_wrt (\<lambda>a b. snd b \<le> snd a) (js_sort (\<lambda>a b. snd b - snd a) xs)"
  by (induction xs) (simp_all add: js_sort_def insert_by_descending)

lemma insert_by_stable:
  "filter (\<lambda>p. snd p = s) (insert_by (\<lambda>a b. snd b - snd a) x ys) =
   filter (\<lambda>p. snd p = s) (x # ys)"
  by (induction ys) auto

lemma js_sort_stable:
  "filter (\<lambda>p. snd p = s) (js_sort (\<lambda>a b. snd b - snd a) xs) = filter (\<lambda>p. snd p = s) xs"
proof (induction xs)
  case Nil
  show ?case by (simp add: js_sort_def)
next
  case (Cons x xs)
  have "js_sort (\<lambda>a b. snd b - snd a) (x # xs) =
        insert_by (\<lambda>a b. snd b - snd a) x (js_sort (\<lambda>a b. snd b - snd a) xs)"
    by (simp add: js_sort_def)
  then show ?case using Cons.IH by (simp only: insert_by_stable filter.simps)
qed

lemma prefix_filter_take: "prefix (filter P (take k xs)) (filter P xs)"
proof -
  have "filter P xs = filter P (take k xs) @ filter P (drop k xs)"
    by (metis append_take_drop_id filter_append)
  then show ?thesis by (simp add: prefix_def)
qed

lemma queryLibrary_sorted_take:
  assumes "0 \<le> topK"
  shows "queryLibrary round64 sha256 lc library query topK =
         map fst (take (nat topK)
           (js_sort (\<lambda>a b. snd b - snd a)
              (map (\<lambda>chunk. (chunk, calculateSimilarity_binary64 round64 sha256 lc query chunk))
                   (chunks library))))"
  using assms by (simp add: queryLibrary_def Let_def js_slice_prefix)

lemma filter_score_pairs:
  assumes "\<forall>p \<in> set ps. snd p = sc (fst p)"
  shows "filter (\<lambda>c. sc c = s) (map fst ps) = map fst (filter (\<lambda>p. snd p = s) ps)"
  using assms by (induction ps) simp_all

lemma filter_score_scored:
  "filter (\<lambda>c. sc c = s) cs = map fst (filter (\<lambda>p. snd p = s) (map (\<lambda>c. (c, sc c)) cs))"
  by (induction cs) simp_all

lemma descending_score_pairs:
  assumes "sorted_wrt (\<lambda>a b. snd b \<le> snd a) ps" and "\<forall>p \<in> set ps. snd p = sc (fst p)"
  shows "sorted_wrt (\<lambda>a b. sc b \<le> sc a) (map fst ps)"
  using assms by (induction ps) auto

lemma ranked_prefix:
  fixes sc :: "'a \<Rightarrow> real"
  defines "ranked \<equiv> \<lambda>cs. js_sort (\<lambda>a b. snd b - snd a) (map (\<lambda>c. (c, sc c)) cs)"
  shows "length (map fst (take k (ranked cs))) = min k (length cs)
       \<and> sorted_wrt (\<lambda>a b. sc b \<le> sc a) (map fst (take k (ranked cs)))
       \<and> prefix (filter (\<lambda>c. sc c = s) (map fst (take k (ranked cs)))) (filter (\<lambda>c. sc c = s) cs)"
proof (intro conjI)
  have pairs: "\<forall>p \<in> set (ranked cs). snd p = sc (fst p)"
    unfolding ranked_def set_js_sort by simp
  have pairs_top: "\<forall>p \<in> set (take k (ranked cs)). snd p = sc (fst p)"
  proof
    fix p assume "p \<in> set (take k (ranked cs))"
    then have "p \<in> set (ranked cs)" by (rule in_set_takeD)
    with pairs show "snd p = sc (fst p)" by blast
  qed
  show "length (map fst (take k (ranked cs))) = min k (length cs)"
    unfolding ranked_def by (simp add: length_js_sort min.commute)
  have "sorted_wrt (\<lambda>a b. snd b \<le> snd a) (ranked cs)"
    unfolding ranked_def by (rule js_sort_descending)
  then have "sorted_wrt (\<lambda>a b. snd b \<le> snd a) (take k (ranked cs))"
    by (rule sorted_wrt_take)
  then show "sorted_wrt (\<lambda>a b. sc b \<le> sc a) (map fst (take k (ranked cs)))"
    using pairs_top by (rule descending_score_pairs)
  have a: "filter (\<lambda>c. sc c = s) (map fst (take k (ranked cs))) =
           map fst (filter (\<lambda>p. snd p = s) (take k (ranked cs)))"
    using pairs_top by (rule filter_score_pairs)
  have b: "filter (\<lambda>c. sc c = s) cs = map fst (filter (\<lambda>p. snd p = s) (ranked cs))"
    unfolding ranked_def js_sort_stable by (rule filter_score_scored)
  have "prefix (map fst (filter (\<lambda>p. snd p = s) (take k (ranked cs))))
               (map fst (filter (\<lambda>p. snd p = s) (ranked cs)))"
    by (intro map_mono_prefix prefix_filter_take)
  then show "prefix (filter (\<lambda>c. sc c = s) (map fst (take k (ranked cs)))) (filter (\<lambda>c. sc c = s) cs)"
    by (simp only: a b)
qed

subsection \<open>Scores in binary64: two instances\<close>

text \<open>
  With exact arithmetic in the place of the rounding, \<open>calculateSimilarity_binary64\<close>
  is \<open>calculateSimilarity\<close> (\<open>calculateSimilarity_binary64_exact\<close>). The two chunks of
  \<open>tie_library\<close> have the same exact score (\<open>tie_exact\<close>); in binary64 the second
  scores higher (\<open>tie_scores_differ\<close>), and \<open>queryLibrary\<close> returns it first
  (\<open>tie_query_result\<close>). In \<open>demo_chunks\<close> the last two chunks
  have the same binary64 score and stay in their order (\<open>demo_query\<close>).
\<close>

lemma content_compressChunk: "content (compressChunk sha256 uuid now c nMax) = c"
  by (simp add: compressChunk_def Let_def)

lemma hash_compressChunk: "hash (compressChunk sha256 uuid now c nMax) = digest_hex (sha256 c)"
  by (simp add: compressChunk_def Let_def)

lemma bit_length_0 [simp]: "bit_length 0 = 0"
  by (subst bit_length.simps) simp

lemma bit_length_pos: "0 < n \<Longrightarrow> bit_length n = Suc (bit_length (n div 2))"
  by (subst bit_length.simps) simp

lemmas binary64_eval =
  binary64_def float_exponent_def round_half_even_def bit_length_pos Let_def power_int_def
  power_one_over

lemma hex_abc: "digest_hex sha_abc =
  js ''ba7816bf8f01cfea414140de5dae2223b00361a396177a9cb410ff61f20015ad''"
  by (simp add: digest_hex_def digest_bytes_def sha_abc_def upt_rec hex_of_byte_def
        hex_digit_def js_def)

lemma hex_a: "digest_hex 0xba7816c09012d0fb525251ef6ebf3334c11472b4a7288badc5210072031126be =
  js ''ba7816c09012d0fb525251ef6ebf3334c11472b4a7288badc5210072031126be''"
  by (simp add: digest_hex_def digest_bytes_def upt_rec hex_of_byte_def hex_digit_def js_def)

lemma hex_b: "digest_hex 0xba7816bf8f01cfea414140de5dae2223b00361b4a7288badc5210072031126be =
  js ''ba7816bf8f01cfea414140de5dae2223b00361b4a7288badc5210072031126be''"
  by (simp add: digest_hex_def digest_bytes_def upt_rec hex_of_byte_def hex_digit_def js_def)

lemma tie_sha_query: "tie_sha tie_query = sha_abc"
  by (simp add: tie_sha_def tie_query_def js_def)

lemma tie_sha_a: "tie_sha (js ''aaaa bbbb cccc'') =
    0xba7816c09012d0fb525251ef6ebf3334c11472b4a7288badc5210072031126be"
  by (simp add: tie_sha_def)

lemma tie_sha_b: "tie_sha (js ''zzzz'') =
    0xba7816bf8f01cfea414140de5dae2223b00361b4a7288badc5210072031126be"
  by (simp add: tie_sha_def js_def)

lemma calculateSimilarity_binary64_counts:
  assumes "hash_matches (digest_hex (sha256 (lc q))) (hash c) = m"
    and "filter (\<lambda>w. length w > 3) (split_nonword (lc q)) = qws"
    and "length (filter (\<lambda>qWord. list_ex (\<lambda>cWord. js_includes cWord qWord \<or> js_includes qWord cWord)
                                     (split_nonword (lc (content c)))) qws) = k"
  shows "calculateSimilarity_binary64 rnd sha256 lc q c =
           rnd (rnd ((if length qws > 0 then rnd (real k / real (length qws)) else 0) * rnd 0.7)
                + rnd (rnd (real m / 64) * rnd 0.3))"
  by (simp only: calculateSimilarity_binary64_def Let_def assms length_digest_hex) simp

lemma tie_query_hash: "digest_hex (tie_sha tie_query) =
    js ''ba7816bf8f01cfea414140de5dae2223b00361a396177a9cb410ff61f20015ad''"
  by (simp only: tie_sha_query hex_abc)

lemma tie_hash_a: "hash tie_chunk_a =
    js ''ba7816c09012d0fb525251ef6ebf3334c11472b4a7288badc5210072031126be''"
  by (simp only: tie_chunk_a_def hash_compressChunk tie_sha_a hex_a)

lemma tie_hash_b: "hash tie_chunk_b =
    js ''ba7816bf8f01cfea414140de5dae2223b00361b4a7288badc5210072031126be''"
  by (simp only: tie_chunk_b_def hash_compressChunk tie_sha_b hex_b)

lemma tie_matches_a: "hash_matches (digest_hex (tie_sha tie_query)) (hash tie_chunk_a) = 6"
  by (simp only: tie_query_hash tie_hash_a) (simp add: js_def)

lemma tie_matches_b: "hash_matches (digest_hex (tie_sha tie_query)) (hash tie_chunk_b) = 38"
  by (simp only: tie_query_hash tie_hash_b) (simp add: js_def)

lemma tie_query_tokens:
  "filter (\<lambda>w. length w > 3) (split_nonword tie_query) = tie_query_words"
  by (simp add: tie_query_def tie_query_words_def split_nonword_def is_word_char_def js_def)

lemma tie_content_a: "split_nonword (content tie_chunk_a) = [js ''aaaa'', js ''bbbb'', js ''cccc'']"
  by (simp add: tie_chunk_a_def content_compressChunk split_nonword_def is_word_char_def js_def)

lemma tie_content_b: "split_nonword (content tie_chunk_b) = [js ''zzzz'']"
  by (simp add: tie_chunk_b_def content_compressChunk split_nonword_def is_word_char_def js_def)

lemma tie_keywords_a:
  "length (filter (\<lambda>qWord. list_ex (\<lambda>cWord. js_includes cWord qWord \<or> js_includes qWord cWord)
                     (split_nonword (content tie_chunk_a))) tie_query_words) = 3"
  by (simp only: tie_content_a) (simp add: tie_query_words_def js_def)

lemma tie_keywords_b:
  "length (filter (\<lambda>qWord. list_ex (\<lambda>cWord. js_includes cWord qWord \<or> js_includes qWord cWord)
                     (split_nonword (content tie_chunk_b))) tie_query_words) = 0"
  by (simp only: tie_content_b) (simp add: tie_query_words_def js_def)

lemma length_tie_query_words: "length tie_query_words = 14"
  by (simp add: tie_query_words_def)

lemma b64_07: "binary64 (7 / 10) = 6305039478318694 / 9007199254740992"
  by (simp add: binary64_eval)

lemma b64_03: "binary64 (3 / 10) = 5404319552844595 / 18014398509481984"
  by (simp add: binary64_eval)

lemma tie_score_a:
  "calculateSimilarity_binary64 binary64 tie_sha (\<lambda>s. s) tie_query tie_chunk_a
     = 1604407367250739 / 9007199254740992"
proof -
  have 1: "binary64 (3 / 14) = 7720456504063707 / 36028797018963968"
    by (simp add: binary64_eval)
  have 2: "binary64 (3 / 32) = 3 / 32"
    by (simp add: binary64_eval)
  have 3: "binary64 (7720456504063707 / 36028797018963968 * (6305039478318694 / 9007199254740992))
           = 5404319552844595 / 36028797018963968"
    by (simp add: binary64_eval)
  have 4: "binary64 (3 / 32 * (5404319552844595 / 18014398509481984))
           = 2026619832316723 / 72057594037927936"
    by (simp add: binary64_eval)
  have 5: "binary64 (5404319552844595 / 36028797018963968 + 2026619832316723 / 72057594037927936)
           = 1604407367250739 / 9007199254740992"
    by (simp add: binary64_eval)
  have "calculateSimilarity_binary64 binary64 tie_sha (\<lambda>s. s) tie_query tie_chunk_a =
        binary64 (binary64 ((if length tie_query_words > 0
                               then binary64 (real 3 / real (length tie_query_words)) else 0)
                            * binary64 0.7)
                  + binary64 (binary64 (real 6 / 64) * binary64 0.3))"
    by (rule calculateSimilarity_binary64_counts) (simp_all only: tie_matches_a tie_query_tokens tie_keywords_a)
  also have "\<dots> = binary64 (binary64 (binary64 (3 / 14) * binary64 (7 / 10))
                  + binary64 (binary64 (3 / 32) * binary64 (3 / 10)))"
    by (simp add: length_tie_query_words)
  also have "\<dots> = 1604407367250739 / 9007199254740992"
    by (simp only: 1 2 3 4 5 b64_07 b64_03)
  finally show ?thesis .
qed


lemma tie_score_b:
  "calculateSimilarity_binary64 binary64 tie_sha (\<lambda>s. s) tie_query tie_chunk_b
     = 6417629469002957 / 36028797018963968"
proof -
  have 1: "binary64 (19 / 32) = 19 / 32"
    by (simp add: binary64_eval)
  have 2: "binary64 (19 / 32 * (5404319552844595 / 18014398509481984))
           = 6417629469002957 / 36028797018963968"
    by (simp add: binary64_eval)
  have 3: "binary64 (6417629469002957 / 36028797018963968) = 6417629469002957 / 36028797018963968"
    by (simp add: binary64_eval)
  have 0: "binary64 0 = 0"
    by (simp add: binary64_def)
  have "calculateSimilarity_binary64 binary64 tie_sha (\<lambda>s. s) tie_query tie_chunk_b =
        binary64 (binary64 ((if length tie_query_words > 0
                               then binary64 (real 0 / real (length tie_query_words)) else 0)
                            * binary64 0.7)
                  + binary64 (binary64 (real 38 / 64) * binary64 0.3))"
    by (rule calculateSimilarity_binary64_counts) (simp_all only: tie_matches_b tie_query_tokens tie_keywords_b)
  also have "\<dots> = binary64 (binary64 (binary64 0 * binary64 (7 / 10))
                  + binary64 (binary64 (19 / 32) * binary64 (3 / 10)))"
    by (simp add: length_tie_query_words)
  also have "\<dots> = 6417629469002957 / 36028797018963968"
    by (simp only: 0 1 2 3 b64_07 b64_03 mult_zero_left add_0)
  finally show ?thesis .
qed

lemma tie_scores_differ:
  "calculateSimilarity_binary64 binary64 tie_sha (\<lambda>s. s) tie_query tie_chunk_a
     < calculateSimilarity_binary64 binary64 tie_sha (\<lambda>s. s) tie_query tie_chunk_b"
  by (simp add: tie_score_a tie_score_b)

lemma tie_query_result:
  "queryLibrary binary64 tie_sha (\<lambda>s. s) tie_library tie_query 2 = [tie_chunk_b, tie_chunk_a]"
  by (simp add: queryLibrary_def Let_def tie_library_def tie_score_a tie_score_b js_sort_def
        js_slice_def)

lemma calculateSimilarity_binary64_exact:
  "calculateSimilarity_binary64 (\<lambda>x. x) sha256 lc query chunk = calculateSimilarity sha256 lc query chunk"
  by (simp add: calculateSimilarity_binary64_def calculateSimilarity_def Let_def)

lemma tie_exact:
  "calculateSimilarity tie_sha (\<lambda>s. s) tie_query tie_chunk_a = 57 / 320
   \<and> calculateSimilarity tie_sha (\<lambda>s. s) tie_query tie_chunk_b = 57 / 320"
proof -
  have a: "calculateSimilarity_binary64 (\<lambda>x. x) tie_sha (\<lambda>s. s) tie_query tie_chunk_a =
        (if length tie_query_words > 0 then real 3 / real (length tie_query_words) else 0) * 0.7
        + real 6 / 64 * 0.3"
    by (rule calculateSimilarity_binary64_counts) (simp_all only: tie_matches_a tie_query_tokens tie_keywords_a)
  have b: "calculateSimilarity_binary64 (\<lambda>x. x) tie_sha (\<lambda>s. s) tie_query tie_chunk_b =
        (if length tie_query_words > 0 then real 0 / real (length tie_query_words) else 0) * 0.7
        + real 38 / 64 * 0.3"
    by (rule calculateSimilarity_binary64_counts) (simp_all only: tie_matches_b tie_query_tokens tie_keywords_b)
  show ?thesis
    using a b by (simp add: calculateSimilarity_binary64_exact length_tie_query_words)
qed

lemma demo_query_tokens:
  "filter (\<lambda>w. length w > 3) (split_nonword (js ''orbital'')) = [js ''orbital'']"
  by (simp add: split_nonword_def is_word_char_def js_def)

lemma demo_matches:
  "hash_matches (digest_hex sha_abc) (hash (demo_chunk uuid c)) = 64"
  by (simp add: demo_chunk_def hash_compressChunk hash_matches_same length_digest_hex)

lemma demo_keywords:
  "length (filter (\<lambda>qWord. list_ex (\<lambda>cWord. js_includes cWord qWord \<or> js_includes qWord cWord)
                     (split_nonword (content (demo_chunk ''id-1'' ''alpha beta'')))) [js ''orbital'']) = 0"
  "length (filter (\<lambda>qWord. list_ex (\<lambda>cWord. js_includes cWord qWord \<or> js_includes qWord cWord)
                     (split_nonword (content (demo_chunk ''id-2'' ''orbital model'')))) [js ''orbital'']) = 1"
  "length (filter (\<lambda>qWord. list_ex (\<lambda>cWord. js_includes cWord qWord \<or> js_includes qWord cWord)
                     (split_nonword (content (demo_chunk ''id-3'' ''orbital states here'')))) [js ''orbital'']) = 1"
  by (simp_all add: demo_chunk_def content_compressChunk split_nonword_def is_word_char_def js_def)

lemma b64_units: "binary64 0 = 0" "binary64 1 = 1"
  by (simp_all add: binary64_eval)

lemma b64_literals_again:
  "binary64 (6305039478318694 / 9007199254740992) = 6305039478318694 / 9007199254740992"
  "binary64 (5404319552844595 / 18014398509481984) = 5404319552844595 / 18014398509481984"
  "binary64 (6305039478318694 / 9007199254740992 + 5404319552844595 / 18014398509481984) = 1"
  by (simp_all add: binary64_eval)

lemma demo_score_1:
  "calculateSimilarity_binary64 binary64 (\<lambda>s. sha_abc) (\<lambda>s. s) (js ''orbital'')
     (demo_chunk ''id-1'' ''alpha beta'') = 5404319552844595 / 18014398509481984"
proof -
  have "calculateSimilarity_binary64 binary64 (\<lambda>s. sha_abc) (\<lambda>s. s) (js ''orbital'')
          (demo_chunk ''id-1'' ''alpha beta'') =
        binary64 (binary64 ((if length [js ''orbital''] > 0
                               then binary64 (real 0 / real (length [js ''orbital''])) else 0)
                            * binary64 0.7)
                  + binary64 (binary64 (real 64 / 64) * binary64 0.3))"
    by (rule calculateSimilarity_binary64_counts)
       (simp_all only: demo_matches demo_query_tokens demo_keywords)
  also have "\<dots> = binary64 (binary64 (binary64 0 * binary64 (7 / 10))
                  + binary64 (binary64 1 * binary64 (3 / 10)))"
    by simp
  also have "\<dots> = 5404319552844595 / 18014398509481984"
    by (simp only: b64_units b64_07 b64_03 b64_literals_again mult_zero_left mult_1 add_0)
  finally show ?thesis .
qed

lemma demo_score_2:
  "calculateSimilarity_binary64 binary64 (\<lambda>s. sha_abc) (\<lambda>s. s) (js ''orbital'')
     (demo_chunk ''id-2'' ''orbital model'') = 1"
proof -
  have "calculateSimilarity_binary64 binary64 (\<lambda>s. sha_abc) (\<lambda>s. s) (js ''orbital'')
          (demo_chunk ''id-2'' ''orbital model'') =
        binary64 (binary64 ((if length [js ''orbital''] > 0
                               then binary64 (real 1 / real (length [js ''orbital''])) else 0)
                            * binary64 0.7)
                  + binary64 (binary64 (real 64 / 64) * binary64 0.3))"
    by (rule calculateSimilarity_binary64_counts)
       (simp_all only: demo_matches demo_query_tokens demo_keywords)
  also have "\<dots> = binary64 (binary64 (binary64 1 * binary64 (7 / 10))
                  + binary64 (binary64 1 * binary64 (3 / 10)))"
    by simp
  also have "\<dots> = 1"
    by (simp only: b64_units b64_07 b64_03 b64_literals_again mult_1)
  finally show ?thesis .
qed

lemma demo_score_3:
  "calculateSimilarity_binary64 binary64 (\<lambda>s. sha_abc) (\<lambda>s. s) (js ''orbital'')
     (demo_chunk ''id-3'' ''orbital states here'') = 1"
proof -
  have "calculateSimilarity_binary64 binary64 (\<lambda>s. sha_abc) (\<lambda>s. s) (js ''orbital'')
          (demo_chunk ''id-3'' ''orbital states here'') =
        binary64 (binary64 ((if length [js ''orbital''] > 0
                               then binary64 (real 1 / real (length [js ''orbital''])) else 0)
                            * binary64 0.7)
                  + binary64 (binary64 (real 64 / 64) * binary64 0.3))"
    by (rule calculateSimilarity_binary64_counts)
       (simp_all only: demo_matches demo_query_tokens demo_keywords)
  also have "\<dots> = binary64 (binary64 (binary64 1 * binary64 (7 / 10))
                  + binary64 (binary64 1 * binary64 (3 / 10)))"
    by simp
  also have "\<dots> = 1"
    by (simp only: b64_units b64_07 b64_03 b64_literals_again mult_1)
  finally show ?thesis .
qed

lemma demo_query: "queryLibrary binary64 (\<lambda>s. sha_abc) (\<lambda>s. s) demo_chunks (js ''orbital'') 2
   = [demo_chunk ''id-2'' ''orbital model'', demo_chunk ''id-3'' ''orbital states here'']"
  by (simp add: queryLibrary_def Let_def demo_chunks_def demo_score_1 demo_score_2 demo_score_3
        js_sort_def js_slice_def)

text \<open>
  Claim C4. For every library, query and positive \<open>topK\<close>, \<open>queryLibrary\<close> returns
  \<open>min topK (number of chunks)\<close> chunks, in the order of non-increasing similarity
  score, the score being the number that the program computes
  (\<open>calculateSimilarity_binary64\<close>, for every rounding); and for every score \<open>s\<close>, the
  returned chunks of score \<open>s\<close> are, in the same order, the first of the chunks of
  score \<open>s\<close> of the library: chunks of equal score keep the order of insertion.
\<close>

theorem queryLibrary_topK:
  assumes "0 < topK"
  shows "length (queryLibrary round64 sha256 lc library query topK)
           = min (nat topK) (length (chunks library))
       \<and> sorted_wrt (\<lambda>a b. calculateSimilarity_binary64 round64 sha256 lc query b
                           \<le> calculateSimilarity_binary64 round64 sha256 lc query a)
            (queryLibrary round64 sha256 lc library query topK)
       \<and> prefix (filter (\<lambda>c. calculateSimilarity_binary64 round64 sha256 lc query c = s)
                    (queryLibrary round64 sha256 lc library query topK))
                 (filter (\<lambda>c. calculateSimilarity_binary64 round64 sha256 lc query c = s)
                    (chunks library))"
proof -
  have q: "queryLibrary round64 sha256 lc library query topK =
         map fst (take (nat topK)
           (js_sort (\<lambda>a b. snd b - snd a)
              (map (\<lambda>chunk. (chunk, calculateSimilarity_binary64 round64 sha256 lc query chunk))
                   (chunks library))))"
    using assms by (intro queryLibrary_sorted_take) simp
  show ?thesis
    unfolding q by (rule ranked_prefix)
qed

theorem queryLibrary_topK_witness:
  "queryLibrary binary64 (\<lambda>s. sha_abc) (\<lambda>s. s) demo_chunks (js ''orbital'') 2
     = [demo_chunk ''id-2'' ''orbital model'', demo_chunk ''id-3'' ''orbital states here'']
   \<and> length (queryLibrary binary64 (\<lambda>s. sha_abc) (\<lambda>s. s) demo_chunks (js ''orbital'') 2)
       = min (nat 2) (length (chunks demo_chunks))
   \<and> sorted_wrt (\<lambda>a b. calculateSimilarity_binary64 binary64 (\<lambda>s. sha_abc) (\<lambda>s. s) (js ''orbital'') b
                       \<le> calculateSimilarity_binary64 binary64 (\<lambda>s. sha_abc) (\<lambda>s. s) (js ''orbital'') a)
        (queryLibrary binary64 (\<lambda>s. sha_abc) (\<lambda>s. s) demo_chunks (js ''orbital'') 2)
   \<and> prefix (filter (\<lambda>c. calculateSimilarity_binary64 binary64 (\<lambda>s. sha_abc) (\<lambda>s. s) (js ''orbital'') c = 1)
               (queryLibrary binary64 (\<lambda>s. sha_abc) (\<lambda>s. s) demo_chunks (js ''orbital'') 2))
            (filter (\<lambda>c. calculateSimilarity_binary64 binary64 (\<lambda>s. sha_abc) (\<lambda>s. s) (js ''orbital'') c = 1)
               (chunks demo_chunks))"
proof -
  have h: "(0::int) < 2" by simp
  show ?thesis
    using demo_query
      queryLibrary_topK [OF h, of binary64 "\<lambda>s. sha_abc" "\<lambda>s. s" demo_chunks "js ''orbital''" 1]
    by (intro conjI) blast+
qed

section \<open>The compression ratio of a library\<close>

lemma split_ws_no_space:
  assumes "\<forall>c \<in> set s. \<not> is_space c"
  shows "split_ws s = [s]"
proof -
  have "split_runs is_space [] (s @ []) = split_runs is_space ([] @ s) []"
    using assms by (rule split_runs_acc)
  then show ?thesis by (simp add: split_ws_def)
qed

lemma chunkText_one_token:
  assumes "\<forall>c \<in> set s. \<not> is_space c"
  shows "chunkText s 250 = Some [s]"
proof -
  have "pieces 250 [s] = [[s]]"
    by (simp add: pieces_step)
  moreover have "chunkText s 250 = Some (map (js_join 0x20) (pieces (nat 250) (split_ws s)))"
    by (rule chunkText_pieces) simp
  ultimately show ?thesis
    using assms by (simp add: split_ws_no_space)
qed

lemma utf8_byteLength_two_bytes:
  "\<forall>c \<in> set s. 0x80 \<le> c \<and> c < 0x800 \<Longrightarrow> utf8_byteLength s = 2 * length s"
proof (induction s rule: utf8_byteLength.induct)
  case 1
  show ?case by simp
next
  case (2 c)
  then show ?case by (simp add: not_less)
next
  case (3 c d cs)
  then have c: "\<not> c < 0x80" "c < 0x800" by (simp_all add: not_less)
  have "utf8_byteLength (d # cs) = 2 * length (d # cs)"
    using 3 c by simp
  then show ?case using c by simp
qed

lemma utf8_byteLength_ascii:
  "\<forall>c \<in> set s. c < 0x80 \<Longrightarrow> utf8_byteLength s = length s"
proof (induction s rule: utf8_byteLength.induct)
  case 1
  show ?case by simp
next
  case (2 c)
  then show ?case by simp
next
  case (3 c d cs)
  then show ?case by simp
qed

lemma foldl_descriptor_sizes:
  assumes "\<forall>c \<in> set cs. length (states (gravitational_bit c)) = k"
  shows "foldl (\<lambda>sum chunk. sum + 32 + length (states (gravitational_bit chunk)) * 4) a cs
         = a + length cs * (32 + 4 * k)"
  using assms by (induction cs arbitrary: a) (simp_all add: algebra_simps)

lemma createLibrary_ratio:
  assumes "0 \<le> nMax"
  shows "\<exists>library. createLibrary sha256 uuids clock nm text nMax = Some library
      \<and> total_compression_ratio library =
          real (length text) / real (length (chunks library) * (32 + 4 * nat nMax))"
proof -
  let ?tc = "map (js_join 0x20) (pieces (nat 250) (split_ws text))"
  let ?cs = "map (\<lambda>(i, chunk). compressChunk sha256 (uuids i) (clock i) chunk nMax) (enumerate 0 ?tc)"
  have ct: "chunkText text 250 = Some ?tc"
    by (rule chunkText_pieces) simp
  have "\<forall>c \<in> set ?cs. length (states (gravitational_bit c)) = nat nMax"
    by (auto simp: states_of_compressChunk states_digest_length)
  then have "foldl (\<lambda>sum chunk. sum + 32 + length (states (gravitational_bit chunk)) * 4) 0 ?cs
         = 0 + length ?cs * (32 + 4 * nat nMax)"
    by (rule foldl_descriptor_sizes)
  then show ?thesis
    by (simp add: createLibrary_def ct Let_def)
qed

text \<open>
  Claim C6 has the ratio of a library divide the byte length of the text by the total
  size of the descriptors. By \<open>createLibrary_ratio\<close> the divisor is as claimed, but the
  dividend is \<^verbatim>\<open>text.length\<close>, the number of UTF-16 code units, where
  \<open>compressChunk\<close> takes \<^verbatim>\<open>Buffer.byteLength(content, 'utf8')\<close> for the ratio of
  one chunk; the two agree on ASCII text only (\<open>utf8_byteLength_ascii\<close>). A text of 100
  letters U+00E9 is 200 bytes and makes one chunk with a descriptor of 92 bytes: the
  ratio recorded is \<open>100 / 92\<close>, not \<open>200 / 92\<close>.
\<close>

theorem createLibrary_ratio_non_ascii:
  "map_option total_compression_ratio
     (createLibrary (\<lambda>s. sha_abc) (\<lambda>i. js ''id'') (\<lambda>i. js ''t'') (js ''demo'')
        (replicate 100 0xE9) 15) = Some (100 / 92)
   \<and> map_option (\<lambda>library. map (\<lambda>chunk. 32 + 4 * length (states (gravitational_bit chunk)))
                               (chunks library))
       (createLibrary (\<lambda>s. sha_abc) (\<lambda>i. js ''id'') (\<lambda>i. js ''t'') (js ''demo'')
          (replicate 100 0xE9) 15) = Some [92]
   \<and> utf8_byteLength (replicate 100 0xE9) = 200"
proof -
  have ns: "\<forall>c \<in> set (replicate 100 (0xE9 :: 16 word)). \<not> is_space c"
    by (simp add: is_space_def)
  have ct: "chunkText (replicate 100 0xE9) 250 = Some [replicate 100 0xE9]"
    using ns by (rule chunkText_one_token)
  have u: "utf8_byteLength (replicate 100 0xE9) = 2 * length (replicate 100 (0xE9 :: 16 word))"
    by (rule utf8_byteLength_two_bytes) simp
  show ?thesis
    by (simp add: createLibrary_def ct Let_def states_of_compressChunk states_digest_length u)
qed

section \<open>What \<^verbatim>\<open>queryLibrary\<close> writes to\<close>

lemma heap_ok_allocated: "heap_ok h \<Longrightarrow> cells h a = Some obj \<Longrightarrow> a < next_ref h"
  unfolding heap_ok_def by (metis not_le_imp_less option.distinct(1))

text \<open>
  Claim C10. For every library, query and \<open>topK\<close>, a call of \<open>queryLibrary\<close> on a
  library object of the heap returns, and after it the library object (name, address of
  its array of chunks, compression ratio, timestamps) and its array of chunks (the
  same chunks in the same order) are as before: every address that was allocated
  before the call holds what it held. The sort is done on the array of scored pairs
  that the call allocates, and the array returned is a new one; it holds the chunks
  that \<open>queryLibrary\<close> gives.
\<close>

theorem queryLibrary_heap_frame:
  assumes ok: "heap_ok h"
    and lib: "cells h library = Some (LibraryObj nm chunksRef ratio created updated)"
    and arr: "cells h chunksRef = Some (ChunkArray cs)"
  shows "\<exists>result h'.
           queryLibrary_heap round64 sha256 lc library query topK h = Some (result, h')
         \<and> cells h' library = Some (LibraryObj nm chunksRef ratio created updated)
         \<and> cells h' chunksRef = Some (ChunkArray cs)
         \<and> (\<forall>a. a < next_ref h \<longrightarrow> cells h' a = cells h a)
         \<and> cells h' result =
             Some (ChunkArray (queryLibrary round64 sha256 lc
                     \<lparr> name = nm, chunks = cs, total_compression_ratio = ratio,
                       created_at = created, updated_at = updated \<rparr> query topK))
         \<and> heap_ok h'"
proof -
  let ?sc = "calculateSimilarity_binary64 round64 sha256 lc query"
  let ?cmp = "\<lambda>a b :: CompressedChunk \<times> real. snd b - snd a"
  let ?scored = "map (\<lambda>chunk. (chunk, ?sc chunk)) cs"
  let ?sorted = "js_sort ?cmp ?scored"
  let ?r1 = "next_ref h"
  let ?h1 = "h \<lparr> cells := (cells h)(?r1 \<mapsto> ScoredArray ?scored), next_ref := Suc ?r1 \<rparr>"
  let ?h2 = "?h1 \<lparr> cells := (cells ?h1)(?r1 \<mapsto> ScoredArray ?sorted) \<rparr>"
  let ?r2 = "Suc ?r1"
  let ?h3 = "?h2 \<lparr> cells := (cells ?h2)(?r2 \<mapsto> ScoredArray (js_slice ?sorted 0 topK)),
                   next_ref := Suc ?r2 \<rparr>"
  let ?r3 = "Suc ?r2"
  let ?h4 = "?h3 \<lparr> cells := (cells ?h3)(?r3 \<mapsto> ChunkArray (map fst (js_slice ?sorted 0 topK))),
                   next_ref := Suc ?r3 \<rparr>"
  have l: "library < ?r1" using ok lib by (rule heap_ok_allocated)
  have c: "chunksRef < ?r1" using ok arr by (rule heap_ok_allocated)
  have s1: "array_map_score ?sc chunksRef h = Some (?r1, ?h1)"
    by (simp add: array_map_score_def arr alloc_def)
  have s2: "array_sort ?cmp ?r1 ?h1 = Some ?h2"
    by (simp add: array_sort_def)
  have s3: "array_slice ?r1 0 topK ?h2 = Some (?r2, ?h3)"
    by (simp add: array_slice_def alloc_def)
  have s4: "array_map_chunk ?r2 ?h3 = Some (?r3, ?h4)"
    by (simp add: array_map_chunk_def alloc_def)
  have run: "queryLibrary_heap round64 sha256 lc library query topK h = Some (?r3, ?h4)"
    by (simp only: queryLibrary_heap_def lib s1 s2 s3 s4 option.case heap_obj.case prod.case)
  have frame: "\<forall>a. a < ?r1 \<longrightarrow> cells ?h4 a = cells h a"
    by simp
  have f1: "cells ?h4 library = Some (LibraryObj nm chunksRef ratio created updated)"
    using l lib by simp
  have f2: "cells ?h4 chunksRef = Some (ChunkArray cs)"
    using c arr by simp
  have res: "cells ?h4 ?r3 =
             Some (ChunkArray (queryLibrary round64 sha256 lc
                     \<lparr> name = nm, chunks = cs, total_compression_ratio = ratio,
                       created_at = created, updated_at = updated \<rparr> query topK))"
    by (simp add: queryLibrary_def Let_def)
  have ok4: "heap_ok ?h4"
    using ok by (simp add: heap_ok_def)
  show ?thesis
    using run f1 f2 frame res ok4 by blast
qed

theorem queryLibrary_heap_frame_witness:
  "\<exists>result h'.
      queryLibrary_heap binary64 (\<lambda>s. sha_abc) (\<lambda>s. s) 1 (js ''orbital'') 2 demo_heap = Some (result, h')
    \<and> cells h' 1 = Some (LibraryObj (js ''demo'') 0 0 (js ''t0'') (js ''t1''))
    \<and> cells h' 0 = Some (ChunkArray (chunks demo_chunks))
    \<and> cells h' result =
        Some (ChunkArray [demo_chunk ''id-2'' ''orbital model'',
                          demo_chunk ''id-3'' ''orbital states here''])"
proof -
  have ok: "heap_ok demo_heap"
    by (simp add: heap_ok_def demo_heap_def)
  have lib: "cells demo_heap 1 = Some (LibraryObj (js ''demo'') 0 0 (js ''t0'') (js ''t1''))"
    by (simp add: demo_heap_def)
  have arr: "cells demo_heap 0 = Some (ChunkArray (chunks demo_chunks))"
    by (simp add: demo_heap_def)
  have rec: "\<lparr> name = js ''demo'', chunks = chunks demo_chunks, total_compression_ratio = 0,
               created_at = js ''t0'', updated_at = js ''t1'' \<rparr> = demo_chunks"
    by (simp add: demo_chunks_def)
  show ?thesis
    using queryLibrary_heap_frame [OF ok lib arr, of binary64 "\<lambda>s. sha_abc" "\<lambda>s. s" "js ''orbital''" 2]
    unfolding rec demo_query by blast
qed


end
